theory Spec2Isabelle
  imports Complex_Main
begin

section \<open>Data model (main.go, lines 20-56)\<close>

text \<open>
  Go strings are byte sequences, as \<^typ>\<open>string\<close> is. Go's \<open>int\<close> is modelled by
  \<^typ>\<open>int\<close>: the program never computes with one, it only carries flag values, a
  status code and a slice length to the places that print them.
\<close>

text \<open>
  \<open>decimal.Decimal\<close> of shopspring/decimal: the number \<open>value * 10 ^ exp\<close>, an
  arbitrary-precision coefficient and a decimal exponent.
\<close>

record Decimal =
  dvalue :: int
  dexp :: int

record DefaultEmail =
  EmailAddress :: string

record MonetaryAmount =
  Amount :: Decimal
  CurrencyCode :: string

text \<open>\<open>DefaultEmailAddress\<close> is a pointer in the source: \<open>nil\<close> is \<open>None\<close>.\<close>

record Node =
  ID :: string
  DisplayName :: string
  DefaultEmailAddress :: "DefaultEmail option"
  AmountSpent :: MonetaryAmount

record CustomerSegmentMember =
  Node :: Node

record GraphQLError =
  Message :: string

record CustomerSegmentMembersData =
  Edges :: "CustomerSegmentMember list"

record ResponseData =
  CustomerSegmentMembers :: CustomerSegmentMembersData

record GraphQLResponse =
  Data :: ResponseData
  Errors :: "GraphQLError list"

text \<open>The values the program stores in a \<open>map[string]interface{}\<close>.\<close>

datatype json_value = JInt int | JString string | JBool bool

record GraphQLRequest =
  Query :: string
  Variables :: "string \<rightharpoonup> json_value"

section \<open>Formatting helpers (fmt verbs used by the program)\<close>

definition nl :: char where
  "nl = CHR 0x0A"

definition tab :: char where
  "tab = CHR 0x09"

definition cr :: char where
  "cr = CHR 0x0D"

definition dquote :: char where
  "dquote = CHR 0x22"

definition digit_char :: "nat \<Rightarrow> char" where
  "digit_char n = ''0123456789'' ! (n mod 10)"

text \<open>The decimal digits of a natural number, most significant first, no leading zero.\<close>

fun nat_digits :: "nat \<Rightarrow> string" where
  "nat_digits n = (if n < 10 then [digit_char n] else nat_digits (n div 10) @ [digit_char (n mod 10)])"

declare nat_digits.simps [simp del]

text \<open>The verb \<open>%d\<close>, and \<open>big.Int.String\<close>.\<close>

definition itoa :: "int \<Rightarrow> string" where
  "itoa i = (if i < 0 then CHR ''-'' # nat_digits (nat (- i)) else nat_digits (nat i))"

fun join :: "string \<Rightarrow> string list \<Rightarrow> string" where
  "join sep [] = []"
| "join sep [x] = x"
| "join sep (x # y # ys) = x @ sep @ join sep (y # ys)"

text \<open>The verb \<open>%v\<close> on a \<open>[]GraphQLError\<close>: each struct in braces, separated by spaces.\<close>

definition fmt_errors :: "GraphQLError list \<Rightarrow> string" where
  "fmt_errors es = ''['' @ join '' '' (map (\<lambda>e. ''{'' @ Message e @ ''}'') es) @ '']''"

section \<open>Errors\<close>

text \<open>
  Every error of the program is built by \<open>fmt.Errorf\<close> or is a library error returned
  as it is. One constructor stands for each place that builds or returns one, carrying
  the arguments of the format; \<open>error_message\<close> is the text \<open>Error()\<close> gives.
\<close>

datatype error =
    ConfigError
  | QueryFailed error
  | GraphQLErrors "GraphQLError list"
  | ExportFailed error
  | MarshalError string
  | RequestError string
  | Timeout
  | TransportError string
  | HttpError int string
  | DecodeError string
  | Cancelled
  | CreateError string
  | WriteError string

fun error_message :: "error \<Rightarrow> string" where
  "error_message ConfigError = ''SHOPIFY_DOMAIN and SHOPIFY_ACCESS_TOKEN must be set''"
| "error_message (QueryFailed e) = ''GraphQL query failed: '' @ error_message e"
| "error_message (GraphQLErrors es) = ''GraphQL errors: '' @ fmt_errors es"
| "error_message (ExportFailed e) = ''failed to export CSV: '' @ error_message e"
| "error_message (MarshalError m) = ''failed to marshal request: '' @ m"
| "error_message (RequestError m) = ''failed to create request: '' @ m"
| "error_message Timeout = ''operation timed out after 5 seconds''"
| "error_message (TransportError m) = ''HTTP request failed: '' @ m"
| "error_message (HttpError status body) = ''HTTP '' @ itoa status @ '': '' @ body"
| "error_message (DecodeError m) = ''failed to decode response: '' @ m"
| "error_message Cancelled = ''operation timed out during CSV export''"
| "error_message (CreateError m) = m"
| "error_message (WriteError m) = m"

section \<open>The environment and the world\<close>

record HttpRequest =
  Method :: string
  URL :: string
  Header :: "(string \<times> string) list"
  ReqBody :: string

text \<open>
  A response body is a stream: \<open>data\<close> is what reading it to the end delivers and
  \<open>read_err\<close> the error the read ends with, if any.
\<close>

record ResponseBody =
  data :: string
  read_err :: "string option"

record HttpResponse =
  StatusCode :: int
  Body :: ResponseBody

text \<open>
  What the program cannot decide itself is a parameter: the process environment, the
  JSON codec, the URL parser inside \<open>http.NewRequestWithContext\<close>, the remote server
  with the time it takes to answer, and the failures and durations of file operations.
  The k-th call of the CSV writer's \<open>Write\<close> (the header is call 0) takes
  \<open>write_cost k\<close>. The k-th write that reaches the destination, a spill of the
  writer's buffer or its flush, is taken whole when \<open>dest_write k\<close> is \<open>None\<close>; when
  it is \<open>Some (n, msg)\<close> the destination takes \<open>n\<close> bytes of it at most and the write
  fails with \<open>msg\<close>.
\<close>

record env =
  getenv :: "string \<Rightarrow> string"
  json_marshal :: "GraphQLRequest \<Rightarrow> string + string"
  new_request_err :: "string \<Rightarrow> string option"
  transport :: "HttpRequest \<Rightarrow> nat \<times> (string + HttpResponse)"
  json_decode :: "ResponseBody \<Rightarrow> nat \<times> (string + GraphQLResponse)"
  create_err :: "string \<Rightarrow> string option"
  dest_write :: "nat \<Rightarrow> (nat \<times> string) option"
  write_cost :: "nat \<Rightarrow> nat"

text \<open>
  The state the program changes: the clock (in milliseconds), the files by name and
  what has been printed on standard output.
\<close>

record world =
  now :: nat
  files :: "string \<rightharpoonup> string"
  stdout :: string

text \<open>
  A context made by \<open>context.WithTimeout\<close>: it is done from its deadline on, and its
  \<open>Err()\<close> is then \<open>DeadlineExceeded\<close>. (\<open>cancel\<close> is deferred in \<open>main\<close> and runs
  after the pipeline has returned.)
\<close>

record ctx =
  deadline :: nat

datatype ctx_err = Canceled | DeadlineExceeded

definition ctx_Done :: "ctx \<Rightarrow> world \<Rightarrow> bool" where
  "ctx_Done ctx w = (deadline ctx \<le> now w)"

definition ctx_Err :: "ctx \<Rightarrow> world \<Rightarrow> ctx_err option" where
  "ctx_Err ctx w = (if deadline ctx \<le> now w then Some DeadlineExceeded else None)"

text \<open>The command-line flags read through \<open>cli.Context\<close> (main.go, lines 66-70).\<close>

record flags =
  first :: int
  query :: string
  sortKey :: string
  reverse :: bool
  outputName :: string

section \<open>Query builder (main.go, lines 92-116)\<close>

definition variables :: "flags \<Rightarrow> (string \<rightharpoonup> json_value)" where
  "variables c =
     [''first'' \<mapsto> JInt (first c),
      ''query'' \<mapsto> JString (query c),
      ''sortKey'' \<mapsto> JString (sortKey c),
      ''reverse'' \<mapsto> JBool (reverse c)]"

definition query_lines :: "string list" where
  "query_lines =
    [replicate 1 tab @ ''query GetCustomerSegmentMembers($first: Int!, $query: String!, $sortKey: String, $reverse: Boolean!) {'',
     replicate 2 tab @ ''customerSegmentMembers(first: $first, query: $query, sortKey: $sortKey, reverse: $reverse) {'',
     replicate 3 tab @ ''edges {'',
     replicate 4 tab @ ''node {'',
     replicate 5 tab @ ''id'',
     replicate 5 tab @ ''displayName'',
     replicate 5 tab @ ''defaultEmailAddress {'',
     replicate 6 tab @ ''emailAddress'',
     replicate 5 tab @ ''}'',
     replicate 5 tab @ ''amountSpent {'',
     replicate 6 tab @ ''amount'',
     replicate 6 tab @ ''currencyCode'',
     replicate 5 tab @ ''}'',
     replicate 4 tab @ ''}'',
     replicate 3 tab @ ''}'',
     replicate 2 tab @ ''}'',
     replicate 1 tab @ ''}'']"

text \<open>The raw string literal: a line break before each of its lines.\<close>

definition query_text :: string where
  "query_text = concat (map (\<lambda>l. nl # l) query_lines)"

definition build_request :: "flags \<Rightarrow> GraphQLRequest" where
  "build_request c = \<lparr>Query = query_text, Variables = variables c\<rparr>"

section \<open>API client (main.go, lines 138-174)\<close>

text \<open>\<open>fmt.Sprintf("https://%s/admin/api/2025-01/graphql.json", domain)\<close>\<close>

definition api_url :: "string \<Rightarrow> string" where
  "api_url domain = ''https://'' @ domain @ ''/admin/api/2025-01/graphql.json''"

text \<open>The \<open>Timeout\<close> field of the \<open>http.Client\<close>: 5 seconds.\<close>

definition client_Timeout :: nat where
  "client_Timeout = 5000"

text \<open>
  \<open>client.Do\<close> for a request made with a context. The server's answer arrives after the
  latency the transport takes; the call is given up at the context's deadline or at the
  client's own timeout, whichever is first, and then returns an error. The clock stands
  at the moment the call returns.
\<close>

definition client_Do :: "env \<Rightarrow> ctx \<Rightarrow> HttpRequest \<Rightarrow> world \<Rightarrow> (string + HttpResponse) \<times> world" where
  "client_Do e ctx req w =
     (let (latency, outcome) = transport e req;
          limit = min (deadline ctx) (now w + client_Timeout)
      in if limit \<le> now w + latency
         then (Inl (''Post '' @ [dquote] @ URL req @ [dquote] @ '': context deadline exceeded''),
               w\<lparr>now := max (now w) limit\<rparr>)
         else (outcome, w\<lparr>now := now w + latency\<rparr>))"

definition io_ReadAll :: "ResponseBody \<Rightarrow> string \<times> string option" where
  "io_ReadAll body = (data body, read_err body)"

definition executeGraphQLQuery ::
  "env \<Rightarrow> ctx \<Rightarrow> string \<Rightarrow> string \<Rightarrow> GraphQLRequest \<Rightarrow> world \<Rightarrow> (error + GraphQLResponse) \<times> world" where
  "executeGraphQLQuery e ctx domain accessToken request w =
     (let url = api_url domain in
      case json_marshal e request of
        Inl err \<Rightarrow> (Inl (MarshalError err), w)
      | Inr body \<Rightarrow>
          (case new_request_err e url of
             Some err \<Rightarrow> (Inl (RequestError err), w)
           | None \<Rightarrow>
               (let req = \<lparr>Method = ''POST'', URL = url,
                           Header = [(''Content-Type'', ''application/json''),
                                     (''X-Shopify-Access-Token'', accessToken)],
                           ReqBody = body\<rparr>
                in case client_Do e ctx req w of
                     (Inl err, w1) \<Rightarrow>
                       (if ctx_Err ctx w1 = Some DeadlineExceeded
                        then (Inl Timeout, w1)
                        else (Inl (TransportError err), w1))
                   | (Inr resp, w1) \<Rightarrow>
                       (if StatusCode resp \<noteq> 200
                        then (let (b, _) = io_ReadAll (Body resp)
                              in (Inl (HttpError (StatusCode resp) b), w1))
                        else (case json_decode e (Body resp) of
                                (cost, Inl err) \<Rightarrow> (Inl (DecodeError err), w1\<lparr>now := now w1 + cost\<rparr>)
                              | (cost, Inr graphqlResp) \<Rightarrow> (Inr graphqlResp, w1\<lparr>now := now w1 + cost\<rparr>))))))"

section \<open>Decimal formatting (shopspring/decimal, used at main.go line 211)\<close>

text \<open>
  Modelled from the spec: \<open>decimal.Decimal\<close> and its \<open>StringFixed\<close> belong to the
  decimal library, a dependency whose code is not among the repository's sources. The spec
  asks for the amount with exactly two decimal digits under the library's default
  rounding, and names round-half-up as one of the two rules it may be. The definitions
  follow the steps of the library's \<open>rescale\<close>, \<open>Round\<close>, \<open>string\<close> and \<open>StringFixed\<close>;
  that these steps are round-half-up, a tie going to the neighbour of larger magnitude, is
  proved below and not assumed.
\<close>

text \<open>Modelled from the spec: \<open>big.Int.Quo\<close>, division truncated toward zero.\<close>

definition Quo :: "int \<Rightarrow> int \<Rightarrow> int" where
  "Quo x y = sgn x * sgn y * (\<bar>x\<bar> div \<bar>y\<bar>)"

text \<open>Modelled from the spec: \<open>rescale\<close>, the same number at another exponent, truncated.\<close>

definition rescale :: "Decimal \<Rightarrow> int \<Rightarrow> Decimal" where
  "rescale d e =
     (if dexp d = e then d
      else let diff = nat \<bar>e - dexp d\<bar>;
               expScale = 10 ^ diff
           in if e > dexp d then \<lparr>dvalue = Quo (dvalue d) expScale, dexp = e\<rparr>
              else \<lparr>dvalue = dvalue d * expScale, dexp = e\<rparr>)"

text \<open>
  Modelled from the spec: \<open>Round\<close>. One more digit than asked is kept, 5 is added to the
  magnitude, and the last digit is dropped (\<open>DivMod\<close> is Euclidean: for the divisor 10
  it is \<open>div\<close> and \<open>mod\<close>).
\<close>

definition Round :: "Decimal \<Rightarrow> int \<Rightarrow> Decimal" where
  "Round d places =
     (if dexp d = - places then d
      else let ret = rescale d (- places - 1);
               v = (if dvalue ret < 0 then dvalue ret - 5 else dvalue ret + 5);
               q = v div 10;
               m = v mod 10;
               q' = (if q < 0 \<and> m \<noteq> 0 then q + 1 else q)
           in \<lparr>dvalue = q', dexp = dexp ret + 1\<rparr>)"

text \<open>Modelled from the spec: \<open>string(false)\<close>, the digits with the decimal point set.\<close>

definition decimal_string :: "Decimal \<Rightarrow> string" where
  "decimal_string d =
     (if dexp d \<ge> 0 then itoa (dvalue (rescale d 0))
      else let str = nat_digits (nat \<bar>dvalue d\<bar>);
               n = nat (- dexp d);
               (intPart, fractionalPart) =
                  (if length str > n
                   then (take (length str - n) str, drop (length str - n) str)
                   else (''0'', replicate (n - length str) (CHR ''0'') @ str));
               number = (if length fractionalPart > 0 then intPart @ ''.'' @ fractionalPart
                         else intPart)
           in if dvalue d < 0 then CHR ''-'' # number else number)"

text \<open>Modelled from the spec: \<open>StringFixed\<close>.\<close>

definition StringFixed :: "Decimal \<Rightarrow> int \<Rightarrow> string" where
  "StringFixed d places = decimal_string (Round d places)"

section \<open>CSV writer (encoding/csv, used at main.go lines 182-214)\<close>

text \<open>
  Modelled from the spec: \<open>csv.Writer\<close> belongs to the standard library, whose code is
  not among the repository's sources. The spec asks for comma-separated text under the
  standard CSV convention, a header row and one row per record. The definitions follow the
  library's \<open>Write\<close> with its default settings: fields joined by commas, the record ended
  by a line feed, a field put in double quotes when it holds a quote, a comma, a carriage
  return or a line feed, or starts with a space, and each quote inside it doubled.
\<close>

text \<open>Modelled from the spec: the UTF-8 encodings of the runes \<open>unicode.IsSpace\<close> accepts.\<close>

definition space_runes :: "string list" where
  "space_runes =
     [[CHR 0x09], [CHR 0x0A], [CHR 0x0B], [CHR 0x0C], [CHR 0x0D], [CHR 0x20],
      [CHR 0xC2, CHR 0x85], [CHR 0xC2, CHR 0xA0],
      [CHR 0xE1, CHR 0x9A, CHR 0x80],
      [CHR 0xE2, CHR 0x80, CHR 0x80], [CHR 0xE2, CHR 0x80, CHR 0x81],
      [CHR 0xE2, CHR 0x80, CHR 0x82], [CHR 0xE2, CHR 0x80, CHR 0x83],
      [CHR 0xE2, CHR 0x80, CHR 0x84], [CHR 0xE2, CHR 0x80, CHR 0x85],
      [CHR 0xE2, CHR 0x80, CHR 0x86], [CHR 0xE2, CHR 0x80, CHR 0x87],
      [CHR 0xE2, CHR 0x80, CHR 0x88], [CHR 0xE2, CHR 0x80, CHR 0x89],
      [CHR 0xE2, CHR 0x80, CHR 0x8A],
      [CHR 0xE2, CHR 0x80, CHR 0xA8], [CHR 0xE2, CHR 0x80, CHR 0xA9],
      [CHR 0xE2, CHR 0x80, CHR 0xAF], [CHR 0xE2, CHR 0x81, CHR 0x9F],
      [CHR 0xE3, CHR 0x80, CHR 0x80]]"

definition first_rune_is_space :: "string \<Rightarrow> bool" where
  "first_rune_is_space field = list_ex (\<lambda>p. take (length p) field = p) space_runes"

text \<open>Modelled from the spec: \<open>fieldNeedsQuotes\<close>, for the comma as separator.\<close>

definition fieldNeedsQuotes :: "string \<Rightarrow> bool" where
  "fieldNeedsQuotes field =
     (if field = [] then False
      else if field = [CHR 0x5C, CHR ''.''] then True
      else if list_ex (\<lambda>c. c = nl \<or> c = cr \<or> c = dquote \<or> c = CHR '','') field then True
      else first_rune_is_space field)"

fun csv_escape :: "string \<Rightarrow> string" where
  "csv_escape [] = []"
| "csv_escape (c # cs) = (if c = dquote then [dquote, dquote] else [c]) @ csv_escape cs"

definition csv_field :: "string \<Rightarrow> string" where
  "csv_field field = (if fieldNeedsQuotes field then [dquote] @ csv_escape field @ [dquote] else field)"

text \<open>Modelled from the spec: the bytes one \<open>Write\<close> produces (\<open>UseCRLF\<close> is off).\<close>

definition csv_record :: "string list \<Rightarrow> string" where
  "csv_record rcd = join '','' (map csv_field rcd) @ [nl]"

section \<open>CSV exporter (main.go, lines 176-220)\<close>

text \<open>Where the writer writes: \<open>os.Stdout\<close> or the file created.\<close>

datatype destination = Stdout | File string

text \<open>The bytes \<open>s\<close> reach the destination: they stand after what it held.\<close>

definition emit :: "destination \<Rightarrow> string \<Rightarrow> world \<Rightarrow> world" where
  "emit d s w =
     (case d of
        Stdout \<Rightarrow> w\<lparr>stdout := stdout w @ s\<rparr>
      | File name \<Rightarrow>
          w\<lparr>files := (files w)(name \<mapsto> (case files w name of None \<Rightarrow> [] | Some old \<Rightarrow> old) @ s)\<rparr>)"

text \<open>
  Modelled from the spec: \<open>csv.NewWriter\<close> wraps its destination in the standard
  library's buffered writer, whose code is not among the repository's sources. The bytes
  of a record go into a buffer of 4096 bytes; they reach the destination only when the
  buffer is full and more bytes come (a spill) or when the writer is flushed. The first
  write the destination refuses stays with the writer as its error: from then on nothing
  more is written, and every \<open>Write\<close> and \<open>Flush\<close> returns that error.
\<close>

definition bufsize :: nat where
  "bufsize = 4096"

text \<open>
  The writer's state: its destination, the bytes buffered, its error, and the number of
  writes it has made to the destination.
\<close>

record Writer =
  wdest :: destination
  wbuf :: string
  werr :: "string option"
  wcount :: nat

text \<open>
  Modelled from the spec: \<open>Flush\<close> of the buffered writer. One write of all buffered
  bytes; when the destination refuses it, the bytes it did not take stay behind and the
  error is kept.
\<close>

definition bufio_Flush :: "env \<Rightarrow> Writer \<Rightarrow> world \<Rightarrow> Writer \<times> world" where
  "bufio_Flush e wr w =
     (if werr wr \<noteq> None then (wr, w)
      else if wbuf wr = [] then (wr, w)
      else case dest_write e (wcount wr) of
             None \<Rightarrow>
               (wr\<lparr>wbuf := [], wcount := Suc (wcount wr)\<rparr>, emit (wdest wr) (wbuf wr) w)
           | Some (n, msg) \<Rightarrow>
               (wr\<lparr>wbuf := drop n (wbuf wr), werr := Some msg, wcount := Suc (wcount wr)\<rparr>,
                emit (wdest wr) (take n (wbuf wr)) w))"

text \<open>
  Modelled from the spec: the buffered writer taking bytes, as its \<open>WriteByte\<close> takes
  each: a byte that finds the buffer full makes it spill first; bytes offered after an
  error are dropped. \<open>WriteString\<close> spills at the same fill when a text does not fit
  the free room; a text longer than the whole buffer it may hand to the destination in a
  write of its own. The properties below do not depend on how such a text is cut into
  writes: they are about a destination that takes every write, or about the header line,
  which fits the buffer.
\<close>

fun bufio_put :: "env \<Rightarrow> string \<Rightarrow> Writer \<Rightarrow> world \<Rightarrow> Writer \<times> world" where
  "bufio_put e [] wr w = (wr, w)"
| "bufio_put e (c # cs) wr w =
     (if werr wr \<noteq> None then (wr, w)
      else case (if bufsize \<le> length (wbuf wr) then bufio_Flush e wr w else (wr, w)) of
             (wr1, w1) \<Rightarrow>
               if werr wr1 \<noteq> None then (wr1, w1)
               else bufio_put e cs (wr1\<lparr>wbuf := wbuf wr1 @ [c]\<rparr>) w1)"

text \<open>
  Modelled from the spec: the k-th \<open>writer.Write\<close>. It takes its time and hands the
  record's bytes to the buffered writer; it returns the writer's error, if there is one.
\<close>

definition csv_Write ::
  "env \<Rightarrow> nat \<Rightarrow> string list \<Rightarrow> Writer \<Rightarrow> world \<Rightarrow> string option \<times> Writer \<times> world" where
  "csv_Write e k rcd wr w =
     (case bufio_put e (csv_record rcd) wr (w\<lparr>now := now w + write_cost e k\<rparr>) of
        (wr', w') \<Rightarrow> (werr wr', wr', w'))"

definition header :: "string list" where
  "header = [''ID'', ''Display Name'', ''Email Address'', ''Amount Spent'', ''Currency Code'']"

text \<open>The body of the loop from the \<open>default\<close> branch on: the record of one customer.\<close>

definition customer_record :: "CustomerSegmentMember \<Rightarrow> string list" where
  "customer_record c =
     (let email = (case DefaultEmailAddress (Node c) of
                     None \<Rightarrow> []
                   | Some de \<Rightarrow> EmailAddress de)
      in [ID (Node c),
          DisplayName (Node c),
          email,
          StringFixed (Amount (AmountSpent (Node c))) 2,
          CurrencyCode (AmountSpent (Node c))])"

text \<open>
  The \<open>for\<close> loop over the customers (lines 198-218); \<open>k\<close> counts the calls of
  \<open>Write\<close> made so far. The \<open>select\<close> with a \<open>default\<close> branch polls the context.
\<close>

fun export_rows ::
  "env \<Rightarrow> ctx \<Rightarrow> nat \<Rightarrow> CustomerSegmentMember list \<Rightarrow> Writer \<Rightarrow> world \<Rightarrow> error option \<times> Writer \<times> world" where
  "export_rows e ctx k [] wr w = (None, wr, w)"
| "export_rows e ctx k (c # cs) wr w =
     (if ctx_Done ctx w then (Some Cancelled, wr, w)
      else case csv_Write e k (customer_record c) wr w of
             (Some msg, wr', w') \<Rightarrow> (Some (WriteError msg), wr', w')
           | (None, wr', w') \<Rightarrow> export_rows e ctx (Suc k) cs wr' w')"

text \<open>
  \<open>os.Create\<close> makes the file or truncates it. Once the writer exists, every way out
  of the function runs the deferred \<open>writer.Flush()\<close>, whose error nobody reads (line
  191), and then closes the file.
\<close>

definition exportToCSV ::
  "env \<Rightarrow> ctx \<Rightarrow> CustomerSegmentMember list \<Rightarrow> string \<Rightarrow> world \<Rightarrow> error option \<times> world" where
  "exportToCSV e ctx customers filename w =
     (case (if filename = [] then Inr (Stdout, w)
            else case create_err e filename of
                   Some msg \<Rightarrow> Inl msg
                 | None \<Rightarrow> Inr (File filename, w\<lparr>files := (files w)(filename \<mapsto> [])\<rparr>)) of
        Inl msg \<Rightarrow> (Some (CreateError msg), w)
      | Inr (d, w1) \<Rightarrow>
          (case (case csv_Write e 0 header \<lparr>wdest = d, wbuf = [], werr = None, wcount = 0\<rparr> w1 of
                   (Some msg, wr, w2) \<Rightarrow> (Some (WriteError msg), wr, w2)
                 | (None, wr, w2) \<Rightarrow> export_rows e ctx 1 customers wr w2) of
             (r, wr, w3) \<Rightarrow> (r, snd (bufio_Flush e wr w3))))"

section \<open>The pipeline (main.go, lines 85-136)\<close>

definition fetchAndExportCustomers :: "env \<Rightarrow> ctx \<Rightarrow> flags \<Rightarrow> world \<Rightarrow> error option \<times> world" where
  "fetchAndExportCustomers e ctx c w =
     (let shopifyDomain = getenv e ''SHOPIFY_DOMAIN'';
          accessToken = getenv e ''SHOPIFY_ACCESS_TOKEN''
      in if shopifyDomain = [] \<or> accessToken = [] then (Some ConfigError, w)
         else case executeGraphQLQuery e ctx shopifyDomain accessToken (build_request c) w of
                (Inl err, w1) \<Rightarrow> (Some (QueryFailed err), w1)
              | (Inr resp, w1) \<Rightarrow>
                  (if length (Errors resp) > 0 then (Some (GraphQLErrors (Errors resp)), w1)
                   else case exportToCSV e ctx (Edges (CustomerSegmentMembers (Data resp)))
                               (outputName c) w1 of
                          (Some err, w2) \<Rightarrow> (Some (ExportFailed err), w2)
                        | (None, w2) \<Rightarrow>
                            (None,
                             w2\<lparr>stdout := stdout w2 @ ''Successfully exported ''
                                  @ itoa (int (length (Edges (CustomerSegmentMembers (Data resp)))))
                                  @ '' customers to '' @ outputName c @ [nl]\<rparr>)))"

text \<open>
  The action of \<open>main\<close> (lines 72-77): the context's deadline is 5 seconds after the
  start.
\<close>

definition action :: "env \<Rightarrow> flags \<Rightarrow> world \<Rightarrow> error option \<times> world" where
  "action e c w = fetchAndExportCustomers e \<lparr>deadline = now w + 5000\<rparr> c w"

section \<open>Notions used to state the properties\<close>

subsection \<open>Rounding to hundredths\<close>

text \<open>The rational number a decimal stands for.\<close>

definition decimal_value :: "Decimal \<Rightarrow> rat" where
  "decimal_value d =
     (if dexp d \<ge> 0 then of_int (dvalue d * 10 ^ nat (dexp d))
      else of_int (dvalue d) / of_int (10 ^ nat (- dexp d)))"

text \<open>
  Round-half-up to hundredths, in hundredths: the nearest multiple of 0.01, a tie going
  to the neighbour of larger magnitude.
\<close>

definition half_up_cents :: "rat \<Rightarrow> int" where
  "half_up_cents x = (if x < 0 then - \<lfloor>- x * 100 + 1 / 2\<rfloor> else \<lfloor>x * 100 + 1 / 2\<rfloor>)"

text \<open>
  A number of hundredths written with exactly two decimal digits: sign, integer part,
  point, tens and units of the hundredths.
\<close>

definition fmt_cents :: "int \<Rightarrow> string" where
  "fmt_cents q =
     (let a = nat \<bar>q\<bar>
      in (if q < 0 then ''-'' else []) @ nat_digits (a div 100) @ ''.'' @
         [digit_char (a div 10), digit_char a])"

text \<open>
  A text has exactly two decimal digits when its first point is followed by two digits
  and nothing more.
\<close>

definition is_digit :: "char \<Rightarrow> bool" where
  "is_digit ch = (ch \<in> set ''0123456789'')"

definition two_decimals :: "string \<Rightarrow> bool" where
  "two_decimals s =
     (case dropWhile (\<lambda>ch. ch \<noteq> CHR ''.'') s of
        [p, a, b] \<Rightarrow> is_digit a \<and> is_digit b
      | _ \<Rightarrow> False)"

text \<open>The last step of \<open>Round\<close> on the coefficient kept with one digit more.\<close>

definition round_last :: "int \<Rightarrow> int" where
  "round_last t =
     (let v = (if t < 0 then t - 5 else t + 5);
          q = v div 10;
          m = v mod 10
      in if q < 0 \<and> m \<noteq> 0 then q + 1 else q)"

text \<open>The magnitude \<open>Round\<close> computes for the magnitude \<open>A\<close> at exponent \<open>e\<close>.\<close>

definition mag :: "int \<Rightarrow> int \<Rightarrow> int" where
  "mag A e = (if e \<ge> -3 then (A * 10 ^ nat (e + 3) + 5) div 10 else (A div 10 ^ nat (- 3 - e) + 5) div 10)"

subsection \<open>What an export leaves in its destination\<close>

text \<open>The CSV text of a list of customers, one line each, in the order of the list.\<close>

definition csv_rows :: "CustomerSegmentMember list \<Rightarrow> string" where
  "csv_rows cs = concat (map (\<lambda>c. csv_record (customer_record c)) cs)"

text \<open>
  \<open>appended d w w' s\<close>: between the worlds \<open>w\<close> and \<open>w'\<close> the text \<open>s\<close> was added at
  the end of the destination, and no other file and no other stream changed.
\<close>

definition appended :: "destination \<Rightarrow> world \<Rightarrow> world \<Rightarrow> string \<Rightarrow> bool" where
  "appended d w w' s =
     (case d of
        Stdout \<Rightarrow> stdout w' = stdout w @ s \<and> files w' = files w
      | File name \<Rightarrow>
          stdout w' = stdout w \<and>
          (case files w name of None \<Rightarrow> False | Some old \<Rightarrow> files w' = (files w)(name \<mapsto> old @ s)))"

text \<open>
  \<open>written filename w w' s\<close>: an export to \<open>filename\<close> that started in \<open>w\<close> and ended
  in \<open>w'\<close> produced the text \<open>s\<close>: on standard output after what was there, or as the
  whole content of the file.
\<close>

definition written :: "string \<Rightarrow> world \<Rightarrow> world \<Rightarrow> string \<Rightarrow> bool" where
  "written filename w w' s =
     (if filename = [] then stdout w' = stdout w @ s \<and> files w' = files w
      else files w' = (files w)(filename \<mapsto> s) \<and> stdout w' = stdout w)"

definition dest_open :: "destination \<Rightarrow> world \<Rightarrow> bool" where
  "dest_open d w = (case d of Stdout \<Rightarrow> True | File name \<Rightarrow> files w name \<noteq> None)"

subsection \<open>Reading CSV text back\<close>

text \<open>
  Modelled from the spec: the spec's round trip re-parses the exported text, and the
  repository has no reader of its own; the reader of the standard library, \<open>csv.Reader\<close>
  with its default settings as \<open>ReadAll\<close> runs it, is not among the repository's
  sources. The definitions follow that reader: the comma separates fields, leading space
  is kept, there are no comment lines, quotes are strict, and every record must have as
  many fields as the first.
\<close>

text \<open>
  Modelled from the spec: the reader's \<open>readLine\<close>. Every line is cut after its line
  feed, and a carriage return before that line feed is dropped, also inside a quoted
  field; a carriage return that ends the text is dropped as well.
\<close>

fun crlf_to_lf :: "string \<Rightarrow> string" where
  "crlf_to_lf [] = []"
| "crlf_to_lf [c] = [c]"
| "crlf_to_lf (c # d # cs) =
     (if c = cr \<and> d = nl then nl # crlf_to_lf cs else c # crlf_to_lf (d # cs))"

definition drop_final_cr :: "string \<Rightarrow> string" where
  "drop_final_cr s = (if s \<noteq> [] \<and> last s = cr then butlast s else s)"

definition read_lines :: "string \<Rightarrow> string" where
  "read_lines s = crlf_to_lf (drop_final_cr s)"

text \<open>
  Modelled from the spec: the reader's \<open>readRecord\<close>, run over the lines. \<open>cur\<close> is the
  field being read, \<open>rcd\<close> the fields of the record being read, \<open>done\<close> the records
  read. An empty line is skipped. A field that does not start with a quote runs to the
  next comma or to the end of the line and may hold no quote. A field that starts with a
  quote runs to the closing quote, over line ends, and holds a doubled quote for each
  quote; after the closing quote only a comma or the end of the line may stand. Text that
  ends inside quotes is refused.
\<close>

datatype csv_mode = AtField | InBare | InQuoted | AfterQuote

fun csv_read :: "csv_mode \<Rightarrow> string \<Rightarrow> string list \<Rightarrow> string list list \<Rightarrow> string \<Rightarrow> string list list option" where
  "csv_read m cur rcd done [] =
     (case m of
        InQuoted \<Rightarrow> None
      | AtField \<Rightarrow> if rcd = [] then Some done else Some (done @ [rcd @ [cur]])
      | InBare \<Rightarrow> Some (done @ [rcd @ [cur]])
      | AfterQuote \<Rightarrow> Some (done @ [rcd @ [cur]]))"
| "csv_read m cur rcd done (c # cs) =
     (case m of
        AtField \<Rightarrow>
          if c = dquote then csv_read InQuoted [] rcd done cs
          else if c = CHR '','' then csv_read AtField [] (rcd @ [[]]) done cs
          else if c = nl then (if rcd = [] then csv_read AtField [] [] done cs
                               else csv_read AtField [] [] (done @ [rcd @ [[]]]) cs)
          else csv_read InBare [c] rcd done cs
      | InBare \<Rightarrow>
          if c = CHR '','' then csv_read AtField [] (rcd @ [cur]) done cs
          else if c = nl then csv_read AtField [] [] (done @ [rcd @ [cur]]) cs
          else if c = dquote then None
          else csv_read InBare (cur @ [c]) rcd done cs
      | InQuoted \<Rightarrow>
          if c = dquote then csv_read AfterQuote cur rcd done cs
          else csv_read InQuoted (cur @ [c]) rcd done cs
      | AfterQuote \<Rightarrow>
          if c = dquote then csv_read InQuoted (cur @ [dquote]) rcd done cs
          else if c = CHR '','' then csv_read AtField [] (rcd @ [cur]) done cs
          else if c = nl then csv_read AtField [] [] (done @ [rcd @ [cur]]) cs
          else None)"

text \<open>
  Modelled from the spec: \<open>ReadAll\<close> with \<open>FieldsPerRecord\<close> left at 0: the first record
  sets the number of fields, and a record of another length is an error.
\<close>

definition parse_csv :: "string \<Rightarrow> string list list option" where
  "parse_csv s =
     (case csv_read AtField [] [] [] (read_lines s) of
        None \<Rightarrow> None
      | Some rs \<Rightarrow> if list_all (\<lambda>r. length r = length (hd rs)) rs then Some rs else None)"

text \<open>A field without quote, comma or line feed.\<close>

definition plain :: "string \<Rightarrow> bool" where
  "plain f = (\<forall>c\<in>set f. c \<noteq> dquote \<and> c \<noteq> CHR '','' \<and> c \<noteq> nl)"

subsection \<open>The request the client sends\<close>

definition api_request :: "string \<Rightarrow> string \<Rightarrow> string \<Rightarrow> HttpRequest" where
  "api_request domain accessToken body =
     \<lparr>Method = ''POST'', URL = api_url domain,
      Header = [(''Content-Type'', ''application/json''), (''X-Shopify-Access-Token'', accessToken)],
      ReqBody = body\<rparr>"

subsection \<open>Example runs\<close>

definition example_flags :: flags where
  "example_flags =
     \<lparr>first = 50, query = ''customer_tags CONTAINS vip'', sortKey = ''amount_spent'',
      reverse = True, outputName = ''customers.csv''\<rparr>"

text \<open>
  An environment with both credentials set, in which nothing fails locally; the server
  answers \<open>outcome\<close> after \<open>latency\<close> and the body decodes to \<open>decoded\<close>.
\<close>

definition example_env :: "nat \<Rightarrow> (string + HttpResponse) \<Rightarrow> (string + GraphQLResponse) \<Rightarrow> env" where
  "example_env latency outcome decoded =
     \<lparr>getenv = (\<lambda>k. if k = ''SHOPIFY_DOMAIN'' then ''shop.example''
                     else if k = ''SHOPIFY_ACCESS_TOKEN'' then ''secret'' else []),
      json_marshal = (\<lambda>r. Inr ''{}''),
      new_request_err = (\<lambda>u. None),
      transport = (\<lambda>r. (latency, outcome)),
      json_decode = (\<lambda>b. (1, decoded)),
      create_err = (\<lambda>f. None),
      dest_write = (\<lambda>k. None),
      write_cost = (\<lambda>k. 1)\<rparr>"

definition start :: world where
  "start = \<lparr>now = 0, files = Map.empty, stdout = []\<rparr>"

definition unauthorized :: HttpResponse where
  "unauthorized = \<lparr>StatusCode = 401, Body = \<lparr>data = ''Unauthorized'', read_err = None\<rparr>\<rparr>"

definition ok_body :: HttpResponse where
  "ok_body = \<lparr>StatusCode = 200, Body = \<lparr>data = ''{}'', read_err = None\<rparr>\<rparr>"

text \<open>
  The record of the spec's scenario, one whose email is present but empty, and one whose
  email address ends with a carriage return and a line feed.
\<close>

definition jane :: CustomerSegmentMember where
  "jane = \<lparr>Node = \<lparr>ID = ''gid://1'', DisplayName = ''Jane Doe'', DefaultEmailAddress = None,
             AmountSpent = \<lparr>Amount = \<lparr>dvalue = 100, dexp = 0\<rparr>, CurrencyCode = ''USD''\<rparr>\<rparr>\<rparr>"

definition blank :: CustomerSegmentMember where
  "blank = \<lparr>Node = \<lparr>ID = ''gid://2'', DisplayName = ''John Roe'',
              DefaultEmailAddress = Some \<lparr>EmailAddress = []\<rparr>,
              AmountSpent = \<lparr>Amount = \<lparr>dvalue = 12345, dexp = - 3\<rparr>, CurrencyCode = ''USD''\<rparr>\<rparr>\<rparr>"

definition wrapped :: CustomerSegmentMember where
  "wrapped = \<lparr>Node = \<lparr>ID = ''gid://3'', DisplayName = ''Ann Poe'',
                DefaultEmailAddress = Some \<lparr>EmailAddress = ''ann@example.com'' @ [cr, nl]\<rparr>,
                AmountSpent = \<lparr>Amount = \<lparr>dvalue = 5, dexp = 0\<rparr>, CurrencyCode = ''USD''\<rparr>\<rparr>\<rparr>"

definition response :: "CustomerSegmentMember list \<Rightarrow> GraphQLError list \<Rightarrow> GraphQLResponse" where
  "response edges errs = \<lparr>Data = \<lparr>CustomerSegmentMembers = \<lparr>Edges = edges\<rparr>\<rparr>, Errors = errs\<rparr>"

section \<open>Properties\<close>

subsection \<open>The API client changes nothing but the clock\<close>

lemma exec_frame:
  "executeGraphQLQuery e ctx d t rq w = (r, w1) \<Longrightarrow> files w1 = files w \<and> stdout w1 = stdout w"
  by (auto simp: executeGraphQLQuery_def client_Do_def Let_def io_ReadAll_def
      split: sum.splits option.splits prod.splits if_splits)

subsection \<open>What reaches the destination\<close>

lemma appended_refl: "dest_open d w \<Longrightarrow> appended d w w []"
  by (auto simp: appended_def dest_open_def split: destination.splits option.splits)

lemma appended_open: "appended d w w' s \<Longrightarrow> dest_open d w'"
  by (auto simp: appended_def dest_open_def split: destination.splits option.splits)

lemma appended_trans:
  "appended d w w1 s1 \<Longrightarrow> appended d w1 w2 s2 \<Longrightarrow> appended d w w2 (s1 @ s2)"
  by (auto simp: appended_def split: destination.splits option.splits)

lemma appended_emit: "dest_open d w \<Longrightarrow> appended d w (emit d s w) s"
  by (auto simp: appended_def dest_open_def emit_def split: destination.splits option.splits)

lemma appended_clock: "appended d w w' s \<Longrightarrow> appended d (w\<lparr>now := t\<rparr>) w' s"
  by (auto simp: appended_def split: destination.splits option.splits)

lemma emit_now: "now (emit d s w) = now w"
  by (cases d) (simp_all add: emit_def)

lemma written_unique: "written f w w' s \<Longrightarrow> written f w w' t \<Longrightarrow> s = t"
  by (auto simp: written_def split: if_splits dest: map_upd_eqD1)

subsection \<open>Flushing and buffering with a destination that takes every write\<close>

lemma flush_taken:
  assumes "dest_write e (wcount wr) = None" and "werr wr = None" and "dest_open (wdest wr) w"
    and "bufio_Flush e wr w = (wr', w')"
  shows "werr wr' = None \<and> wbuf wr' = [] \<and> wdest wr' = wdest wr \<and> now w' = now w \<and>
         appended (wdest wr) w w' (wbuf wr)"
  using assms
  by (auto simp: bufio_Flush_def emit_now appended_emit appended_refl split: if_splits)

lemma put_taken:
  assumes "\<forall>k. dest_write e k = None"
  shows "werr wr = None \<Longrightarrow> dest_open (wdest wr) w \<Longrightarrow> bufio_put e s wr w = (wr', w') \<Longrightarrow>
         werr wr' = None \<and> wdest wr' = wdest wr \<and> now w' = now w \<and>
         (\<exists>t. appended (wdest wr) w w' t \<and> t @ wbuf wr' = wbuf wr @ s)"
proof (induction s arbitrary: wr w)
  case Nil
  then show ?case using appended_refl[of "wdest wr" w] by auto
next
  case (Cons c cs)
  obtain wr1 w1 where F: "(if bufsize \<le> length (wbuf wr) then bufio_Flush e wr w else (wr, w)) = (wr1, w1)"
    by (cases "if bufsize \<le> length (wbuf wr) then bufio_Flush e wr w else (wr, w)")
  have one: "werr wr1 = None \<and> wdest wr1 = wdest wr \<and> now w1 = now w \<and>
         (\<exists>t. appended (wdest wr) w w1 t \<and> t @ wbuf wr1 = wbuf wr)"
  proof (cases "bufsize \<le> length (wbuf wr)")
    case True
    with F have "bufio_Flush e wr w = (wr1, w1)" by simp
    from flush_taken[OF _ Cons.prems(1,2) this] assms show ?thesis by auto
  next
    case False
    with F Cons.prems show ?thesis using appended_refl[of "wdest wr" w] by auto
  qed
  then obtain t where t: "appended (wdest wr) w w1 t" "t @ wbuf wr1 = wbuf wr" by blast
  let ?wr2 = "wr1\<lparr>wbuf := wbuf wr1 @ [c]\<rparr>"
  have R: "bufio_put e cs ?wr2 w1 = (wr', w')"
    using Cons.prems(1,3) F one by simp
  have "werr ?wr2 = None" "dest_open (wdest ?wr2) w1"
    using one appended_open[OF t(1)] by simp_all
  from Cons.IH[OF this R] obtain u where
    u: "werr wr' = None" "wdest wr' = wdest ?wr2" "now w' = now w1"
       "appended (wdest ?wr2) w1 w' u" "u @ wbuf wr' = wbuf ?wr2 @ cs"
    by blast
  have "appended (wdest wr) w w' (t @ u)"
    using appended_trans[OF t(1)] u(4) one by simp
  moreover have "(t @ u) @ wbuf wr' = wbuf wr @ c # cs"
    using t(2)[symmetric] u(5) by simp
  ultimately show ?case using u one by auto
qed


lemma put_small:
  "werr wr = None \<Longrightarrow> length (wbuf wr) + length s \<le> bufsize \<Longrightarrow>
     bufio_put e s wr w = (wr\<lparr>wbuf := wbuf wr @ s\<rparr>, w)"
proof (induction s arbitrary: wr)
  case Nil
  then show ?case by simp
next
  case (Cons c cs)
  have "bufio_put e cs (wr\<lparr>wbuf := wbuf wr @ [c]\<rparr>) w
      = (wr\<lparr>wbuf := wbuf wr @ [c]\<rparr>\<lparr>wbuf := wbuf (wr\<lparr>wbuf := wbuf wr @ [c]\<rparr>) @ cs\<rparr>, w)"
    using Cons.prems by (intro Cons.IH) simp_all
  then show ?case using Cons.prems by simp
qed

lemma csv_Write_taken:
  assumes "\<forall>k. dest_write e k = None" and "werr wr = None" and "dest_open (wdest wr) w"
    and "csv_Write e k rcd wr w = (m, wr', w')"
  shows "m = None \<and> werr wr' = None \<and> wdest wr' = wdest wr \<and> now w' = now w + write_cost e k \<and>
         (\<exists>t. appended (wdest wr) w w' t \<and> t @ wbuf wr' = wbuf wr @ csv_record rcd)"
proof -
  let ?w0 = "w\<lparr>now := now w + write_cost e k\<rparr>"
  have P: "bufio_put e (csv_record rcd) wr ?w0 = (wr', w')" and m: "m = werr wr'"
    using assms(4) by (auto simp: csv_Write_def split: prod.splits)
  have o: "dest_open (wdest wr) ?w0"
    using assms(3) by (cases "wdest wr") (simp_all add: dest_open_def)
  from put_taken[OF assms(1,2) o P] obtain t where
    t: "werr wr' = None" "wdest wr' = wdest wr" "now w' = now ?w0"
       "appended (wdest wr) ?w0 w' t" "t @ wbuf wr' = wbuf wr @ csv_record rcd"
    by blast
  have "appended (wdest wr) w w' t"
    using t(4) by (auto simp: appended_def split: destination.splits option.splits)
  then show ?thesis using t m by auto
qed

lemma csv_Write_now: "csv_Write e k rcd wr w = (m, wr', w') \<Longrightarrow> now w \<le> now w'"
proof -
  have put_now: "bufio_put e s wr w = (wr', w') \<Longrightarrow> now w' = now w" for s wr w wr' w'
  proof (induction s arbitrary: wr w)
    case Nil
    then show ?case by simp
  next
    case (Cons c cs)
    have fl: "now (snd (bufio_Flush e wr w)) = now w"
      by (auto simp: bufio_Flush_def emit_now split: option.splits)
    show ?case
    proof (cases "werr wr \<noteq> None")
      case True
      with Cons.prems show ?thesis by simp
    next
      case False
      obtain wr1 w1 where F: "(if bufsize \<le> length (wbuf wr) then bufio_Flush e wr w else (wr, w)) = (wr1, w1)"
        by (cases "if bufsize \<le> length (wbuf wr) then bufio_Flush e wr w else (wr, w)")
      then have n1: "now w1 = now w" using fl by (auto split: if_splits)
      show ?thesis
      proof (cases "werr wr1 \<noteq> None")
        case True
        with Cons.prems False F n1 show ?thesis by simp
      next
        case ok: False
        with Cons.prems False F have "bufio_put e cs (wr1\<lparr>wbuf := wbuf wr1 @ [c]\<rparr>) w1 = (wr', w')" by simp
        from Cons.IH[OF this] n1 show ?thesis by simp
      qed
    qed
  qed
  assume "csv_Write e k rcd wr w = (m, wr', w')"
  then have "bufio_put e (csv_record rcd) wr (w\<lparr>now := now w + write_cost e k\<rparr>) = (wr', w')"
    by (auto simp: csv_Write_def split: prod.splits)
  from put_now[OF this] show ?thesis by simp
qed

text \<open>
  The loop with a destination that takes every write: it ends with no error or with
  \<open>Cancelled\<close>, never with a write error. The lines of the first n customers have gone
  to the writer, each after a poll that found the context not done; n is the number of
  customers unless the loop was cancelled.
\<close>

lemma export_rows_taken:
  assumes ok: "\<forall>k. dest_write e k = None"
  shows "werr wr = None \<Longrightarrow> dest_open (wdest wr) w \<Longrightarrow> export_rows e ctx k cs wr w = (r, wr', w') \<Longrightarrow>
     \<exists>n\<le>length cs. \<exists>t.
        appended (wdest wr) w w' t \<and> t @ wbuf wr' = wbuf wr @ csv_rows (take n cs) \<and>
        werr wr' = None \<and> wdest wr' = wdest wr \<and>
        now w' = now w + (\<Sum>j<n. write_cost e (k + j)) \<and>
        (\<forall>i<n. \<not> deadline ctx \<le> now w + (\<Sum>j<i. write_cost e (k + j))) \<and>
        (r = None \<and> n = length cs \<or> r = Some Cancelled \<and> n < length cs \<and> ctx_Done ctx w')"
proof (induction cs arbitrary: k wr w)
  case Nil
  then show ?case using appended_refl[of "wdest wr" w] by (auto simp: csv_rows_def)
next
  case (Cons c cs)
  show ?case
  proof (cases "ctx_Done ctx w")
    case True
    with Cons.prems have "r = Some Cancelled" "w' = w" "wr' = wr" by simp_all
    with True Cons.prems(1,2) show ?thesis
      using appended_refl[of "wdest wr" w]
      by (intro exI[of _ 0]) (simp add: csv_rows_def)
  next
    case False
    obtain m wr1 w1 where W: "csv_Write e k (customer_record c) wr w = (m, wr1, w1)"
      by (cases "csv_Write e k (customer_record c) wr w") auto
    from csv_Write_taken[OF ok Cons.prems(1,2) W] obtain t where
      t: "m = None" "werr wr1 = None" "wdest wr1 = wdest wr" "now w1 = now w + write_cost e k"
         "appended (wdest wr) w w1 t" "t @ wbuf wr1 = wbuf wr @ csv_record (customer_record c)"
      by blast
    have R: "export_rows e ctx (Suc k) cs wr1 w1 = (r, wr', w')"
      using Cons.prems(3) False W t(1) by simp
    have o1: "dest_open (wdest wr1) w1" using appended_open[OF t(5)] t(3) by simp
    from Cons.IH[OF t(2) o1 R] obtain n u where
      n: "n \<le> length cs" "appended (wdest wr1) w1 w' u"
         "u @ wbuf wr' = wbuf wr1 @ csv_rows (take n cs)"
         "werr wr' = None" "wdest wr' = wdest wr1"
         "now w' = now w1 + (\<Sum>j<n. write_cost e (Suc k + j))"
         "\<forall>i<n. \<not> deadline ctx \<le> now w1 + (\<Sum>j<i. write_cost e (Suc k + j))"
         "r = None \<and> n = length cs \<or> r = Some Cancelled \<and> n < length cs \<and> ctx_Done ctx w'"
      by blast
    have shift: "(\<Sum>j<Suc i. write_cost e (k + j)) = write_cost e k + (\<Sum>j<i. write_cost e (Suc k + j))" for i
      using sum.lessThan_Suc_shift[of "\<lambda>j. write_cost e (k + j)" i] by simp
    have a: "appended (wdest wr) w w' (t @ u)"
      using appended_trans[OF t(5)] n(2) t(3) by simp
    have b: "(t @ u) @ wbuf wr' = wbuf wr @ csv_rows (take (Suc n) (c # cs))"
      using t(6)[symmetric] n(3) by (simp add: csv_rows_def)
    have clock: "now w' = now w + (\<Sum>j<Suc n. write_cost e (k + j))"
      unfolding shift using n(6) t(4) by simp
    have polls: "\<forall>i<Suc n. \<not> deadline ctx \<le> now w + (\<Sum>j<i. write_cost e (k + j))"
    proof (intro allI impI)
      fix i assume i: "i < Suc n"
      show "\<not> deadline ctx \<le> now w + (\<Sum>j<i. write_cost e (k + j))"
      proof (cases i)
        case 0
        then show ?thesis using False by (simp add: ctx_Done_def)
      next
        case (Suc i')
        then have "i' < n" using i by simp
        with n(7) have "\<not> deadline ctx \<le> now w1 + (\<Sum>j<i'. write_cost e (Suc k + j))" by blast
        then show ?thesis unfolding Suc shift using t(4) by simp
      qed
    qed
    show ?thesis
      apply (rule exI[of _ "Suc n"])
      apply (intro conjI)
       apply (use n(1) in simp)
      apply (rule exI[of _ "t @ u"])
      apply (use a b clock polls n(4,5,8) t(3) in auto)
      done
  qed
qed

lemma header_line: "csv_record header = ''ID,Display Name,Email Address,Amount Spent,Currency Code'' @ [nl]"
  by (simp add: csv_record_def header_def csv_field_def fieldNeedsQuotes_def first_rune_is_space_def
      space_runes_def nl_def cr_def dquote_def)

lemma header_fits: "length (csv_record header) \<le> bufsize"
  by (simp add: header_line bufsize_def)

lemma csv_Write_header:
  "csv_Write e 0 header \<lparr>wdest = d, wbuf = [], werr = None, wcount = 0\<rparr> w
     = (None, \<lparr>wdest = d, wbuf = csv_record header, werr = None, wcount = 0\<rparr>,
        w\<lparr>now := now w + write_cost e 0\<rparr>)"
  using put_small[of "\<lparr>wdest = d, wbuf = [], werr = None, wcount = 0\<rparr>" "csv_record header" e
      "w\<lparr>now := now w + write_cost e 0\<rparr>"] header_fits
  by (simp add: csv_Write_def)

text \<open>The export after the file is open and the header is in the buffer.\<close>

lemma exportToCSV_opened:
  assumes "filename \<noteq> [] \<longrightarrow> create_err e filename = None"
  shows "exportToCSV e ctx customers filename w =
     (case export_rows e ctx 1 customers
             \<lparr>wdest = (if filename = [] then Stdout else File filename),
              wbuf = csv_record header, werr = None, wcount = 0\<rparr>
             ((if filename = [] then w else w\<lparr>files := (files w)(filename \<mapsto> [])\<rparr>)
                \<lparr>now := now w + write_cost e 0\<rparr>) of
        (r, wr, w3) \<Rightarrow> (r, snd (bufio_Flush e wr w3)))"
  using assms by (auto simp: exportToCSV_def csv_Write_header split: option.splits)

lemma written_from_appended:
  assumes "appended (if filename = [] then Stdout else File filename)
             ((if filename = [] then w else w\<lparr>files := (files w)(filename \<mapsto> [])\<rparr>)\<lparr>now := t\<rparr>) w' s"
  shows "written filename w w' s"
  using assms by (auto simp: appended_def written_def split: if_splits)

lemma export_taken:
  assumes ok: "\<forall>k. dest_write e k = None"
    and opened: "filename \<noteq> [] \<longrightarrow> create_err e filename = None"
  shows "\<exists>n\<le>length customers.
           written filename w (snd (exportToCSV e ctx customers filename w))
             (csv_record header @ csv_rows (take n customers)) \<and>
           now (snd (exportToCSV e ctx customers filename w)) = now w + (\<Sum>j<Suc n. write_cost e j) \<and>
           (\<forall>i<n. \<not> deadline ctx \<le> now w + (\<Sum>j<Suc i. write_cost e j)) \<and>
           (fst (exportToCSV e ctx customers filename w) = None \<and> n = length customers \<or>
            fst (exportToCSV e ctx customers filename w) = Some Cancelled \<and> n < length customers \<and>
            ctx_Done ctx (snd (exportToCSV e ctx customers filename w)))"
proof -
  let ?d = "if filename = [] then Stdout else File filename"
  let ?w1 = "(if filename = [] then w else w\<lparr>files := (files w)(filename \<mapsto> [])\<rparr>)
                \<lparr>now := now w + write_cost e 0\<rparr>"
  let ?wr1 = "\<lparr>wdest = ?d, wbuf = csv_record header, werr = None, wcount = 0\<rparr>"
  obtain r wr' w3 where R: "export_rows e ctx 1 customers ?wr1 ?w1 = (r, wr', w3)"
    by (cases "export_rows e ctx 1 customers ?wr1 ?w1") auto
  obtain wr4 w4 where F: "bufio_Flush e wr' w3 = (wr4, w4)" by (cases "bufio_Flush e wr' w3")
  have X: "exportToCSV e ctx customers filename w = (r, w4)"
    unfolding exportToCSV_opened[OF opened] R using F by simp
  have o1: "dest_open (wdest ?wr1) ?w1" by (simp add: dest_open_def)
  have e1: "werr ?wr1 = None" by simp
  from export_rows_taken[OF ok e1 o1 R] obtain n u where
    n: "n \<le> length customers" "appended (wdest ?wr1) ?w1 w3 u"
       "u @ wbuf wr' = wbuf ?wr1 @ csv_rows (take n customers)"
       "werr wr' = None" "wdest wr' = wdest ?wr1"
       "now w3 = now ?w1 + (\<Sum>j<n. write_cost e (1 + j))"
       "\<forall>i<n. \<not> deadline ctx \<le> now ?w1 + (\<Sum>j<i. write_cost e (1 + j))"
       "r = None \<and> n = length customers \<or> r = Some Cancelled \<and> n < length customers \<and> ctx_Done ctx w3"
    by blast
  have o3: "dest_open (wdest wr') w3" using appended_open[OF n(2)] n(5) by simp
  from flush_taken[OF _ n(4) o3 F] ok
  have f: "now w4 = now w3" "appended (wdest wr') w3 w4 (wbuf wr')" by auto
  have "appended (wdest ?wr1) ?w1 w4 (u @ wbuf wr')"
    using appended_trans[OF n(2)] f(2) n(5) by simp
  then have "appended ?d ?w1 w4 (csv_record header @ csv_rows (take n customers))"
    using n(3) by simp
  then have wr: "written filename w w4 (csv_record header @ csv_rows (take n customers))"
    by (rule written_from_appended)
  have shift: "(\<Sum>j<Suc i. write_cost e j) = write_cost e 0 + (\<Sum>j<i. write_cost e (1 + j))" for i
    using sum.lessThan_Suc_shift[of "write_cost e" i] by simp
  have clock: "now w4 = now w + (\<Sum>j<Suc n. write_cost e j)"
    unfolding shift using f(1) n(6) by simp
  have polls: "\<forall>i<n. \<not> deadline ctx \<le> now w + (\<Sum>j<Suc i. write_cost e j)"
    unfolding shift using n(7) by (simp add: add.assoc)
  have res: "r = None \<and> n = length customers \<or> r = Some Cancelled \<and> n < length customers \<and> ctx_Done ctx w4"
    using n(8) f(1) by (auto simp: ctx_Done_def)
  show ?thesis unfolding X using n(1) wr clock polls res by (intro exI[of _ n]) simp
qed

lemma export_success:
  assumes "\<forall>k. dest_write e k = None" and "exportToCSV e ctx customers filename w = (None, w')"
  shows "written filename w w' (csv_record header @ csv_rows customers)"
proof -
  have opened: "filename \<noteq> [] \<longrightarrow> create_err e filename = None"
    using assms(2) by (auto simp: exportToCSV_def split: option.splits if_splits)
  from export_taken[OF assms(1) opened, of customers w ctx] show ?thesis
    unfolding assms(2) by auto
qed

lemma export_cancelled:
  assumes "\<forall>k. dest_write e k = None" and "exportToCSV e ctx customers filename w = (Some Cancelled, w')"
  shows "\<exists>n<length customers.
           written filename w w' (csv_record header @ csv_rows (take n customers)) \<and>
           (\<forall>i<n. \<not> deadline ctx \<le> now w + (\<Sum>j<Suc i. write_cost e j)) \<and>
           ctx_Done ctx w'"
proof -
  have opened: "filename \<noteq> [] \<longrightarrow> create_err e filename = None"
    using assms(2) by (auto simp: exportToCSV_def split: option.splits if_splits)
  from export_taken[OF assms(1) opened, of customers w ctx] show ?thesis
    unfolding assms(2) by auto
qed

text \<open>The export that finds the context done: only the header has gone to the writer.\<close>

lemma export_expired:
  assumes "ctx_Done ctx w" and "filename \<noteq> [] \<longrightarrow> create_err e filename = None"
    and "dest_write e 0 = None"
  shows "fst (exportToCSV e ctx customers filename w) = (if customers = [] then None else Some Cancelled)"
    and "written filename w (snd (exportToCSV e ctx customers filename w)) (csv_record header)"
proof -
  let ?d = "if filename = [] then Stdout else File filename"
  let ?w1 = "(if filename = [] then w else w\<lparr>files := (files w)(filename \<mapsto> [])\<rparr>)
                \<lparr>now := now w + write_cost e 0\<rparr>"
  let ?wr1 = "\<lparr>wdest = ?d, wbuf = csv_record header, werr = None, wcount = 0\<rparr>"
  have done1: "ctx_Done ctx ?w1" using assms(1) by (simp add: ctx_Done_def)
  have R: "export_rows e ctx 1 customers ?wr1 ?w1 = ((if customers = [] then None else Some Cancelled), ?wr1, ?w1)"
    using done1 by (cases customers) simp_all
  have ne: "csv_record header \<noteq> []" by (simp add: csv_record_def)
  have F: "bufio_Flush e ?wr1 ?w1 = (?wr1\<lparr>wbuf := [], wcount := Suc 0\<rparr>, emit ?d (csv_record header) ?w1)"
    using assms(3) ne by (simp add: bufio_Flush_def)
  have X: "exportToCSV e ctx customers filename w
      = ((if customers = [] then None else Some Cancelled), emit ?d (csv_record header) ?w1)"
    unfolding exportToCSV_opened[OF assms(2)] R using F by simp
  show "fst (exportToCSV e ctx customers filename w) = (if customers = [] then None else Some Cancelled)"
    unfolding X by simp
  have "dest_open ?d ?w1" by (simp add: dest_open_def)
  then have "appended ?d ?w1 (emit ?d (csv_record header) ?w1) (csv_record header)"
    by (rule appended_emit)
  then show "written filename w (snd (exportToCSV e ctx customers filename w)) (csv_record header)"
    unfolding X by (simp add: written_from_appended)
qed

text \<open>
  A destination that opens and then refuses every write: the rows stay in the buffer,
  every \<open>Write\<close> returns no error, the error of the deferred flush is dropped, and the
  export returns no error with an empty file.
\<close>

lemma dropped_flush_error:
  "exportToCSV ((example_env l out dec)\<lparr>dest_write := \<lambda>k. Some (0, ''no space left on device'')\<rparr>)
      \<lparr>deadline = 5000\<rparr> [] ''customers.csv'' start
     = (None, start\<lparr>now := 1, files := [''customers.csv'' \<mapsto> []]\<rparr>)"
proof -
  let ?e = "(example_env l out dec)\<lparr>dest_write := \<lambda>k. Some (0, ''no space left on device'')\<rparr>"
  have c: "''customers.csv'' \<noteq> [] \<longrightarrow> create_err ?e ''customers.csv'' = None"
    by (simp add: example_env_def)
  have ne: "csv_record header \<noteq> []" by (simp add: csv_record_def)
  show ?thesis
    unfolding exportToCSV_opened[OF c]
    using ne by (simp add: bufio_Flush_def emit_def start_def example_env_def)
qed

subsection \<open>Reading back what the writer wrote\<close>

lemma crlf_keep: "c \<noteq> cr \<Longrightarrow> crlf_to_lf (c # s) = c # crlf_to_lf s"
  by (cases s) simp_all

lemma crlf_before: "c \<noteq> nl \<Longrightarrow> crlf_to_lf (a @ c # b) = crlf_to_lf a @ crlf_to_lf (c # b)"
  by (induction a rule: crlf_to_lf.induct) simp_all

lemma crlf_after: "cr \<notin> set a \<Longrightarrow> crlf_to_lf (a @ b) = a @ crlf_to_lf b"
proof (induction a)
  case Nil show ?case by simp
next
  case (Cons x xs)
  then have "x \<noteq> cr" by auto
  then show ?case using Cons by (simp add: crlf_keep)
qed

lemma crlf_none: "cr \<notin> set f \<Longrightarrow> crlf_to_lf f = f"
  using crlf_after[of f "[]"] by simp

lemma crlf_empty: "(crlf_to_lf f = []) = (f = [])"
  by (cases f rule: crlf_to_lf.cases) simp_all

lemma escape_head:
  assumes "d \<noteq> nl \<or> c \<noteq> cr"
  shows "crlf_to_lf (c # csv_escape (d # cs)) = c # crlf_to_lf (csv_escape (d # cs))"
proof (cases "d = dquote")
  case True
  have "dquote \<noteq> nl" by (simp add: dquote_def nl_def)
  then show ?thesis using True by simp
next
  case False
  then show ?thesis using assms by auto
qed

lemma crlf_escape: "crlf_to_lf (csv_escape f) = csv_escape (crlf_to_lf f)"
proof (induction f rule: crlf_to_lf.induct)
  case 1 show ?case by simp
next
  case (2 c)
  have "dquote \<noteq> cr" by (simp add: dquote_def cr_def)
  then show ?case by simp
next
  case (3 c d cs)
  have dq: "dquote \<noteq> cr" "cr \<noteq> dquote" "nl \<noteq> dquote"
    by (simp_all add: dquote_def cr_def nl_def)
  show ?case
  proof (cases "c = cr \<and> d = nl")
    case True
    then have "crlf_to_lf (csv_escape (c # d # cs)) = nl # crlf_to_lf (csv_escape cs)"
      using dq by simp
    also have "\<dots> = csv_escape (crlf_to_lf (c # d # cs))"
      using True 3(1) dq by simp
    finally show ?thesis .
  next
    case False
    then have h: "d \<noteq> nl \<or> c \<noteq> cr" by blast
    define X where "X = csv_escape (d # cs)"
    have ih: "crlf_to_lf X = csv_escape (crlf_to_lf (d # cs))"
      unfolding X_def using 3(2)[OF False] .
    have head: "crlf_to_lf (c # X) = c # crlf_to_lf X"
      unfolding X_def using h by (rule escape_head)
    have l: "csv_escape (c # d # cs) = (if c = dquote then [dquote, dquote] else [c]) @ X"
      unfolding X_def by simp
    have r: "csv_escape (crlf_to_lf (c # d # cs))
        = (if c = dquote then [dquote, dquote] else [c]) @ csv_escape (crlf_to_lf (d # cs))"
    proof -
      have n: "crlf_to_lf (c # d # cs) = c # crlf_to_lf (d # cs)" using False by auto
      show ?thesis unfolding n by (rule csv_escape.simps(2))
    qed
    show ?thesis
    proof (cases "c = dquote")
      case True
      have "crlf_to_lf ([dquote, dquote] @ X) = dquote # dquote # crlf_to_lf X"
        using dq(1) by (simp add: crlf_keep)
      then show ?thesis unfolding l r using True ih by simp
    next
      case nq: False
      show ?thesis unfolding l r using nq head ih by simp
    qed
  qed
qed

lemma unquoted_plain: "\<not> fieldNeedsQuotes f \<Longrightarrow> plain f"
  by (auto simp: fieldNeedsQuotes_def plain_def list_ex_iff split: if_splits)

lemma unquoted_no_cr: "\<not> fieldNeedsQuotes f \<Longrightarrow> cr \<notin> set f"
  by (auto simp: fieldNeedsQuotes_def list_ex_iff split: if_splits)

text \<open>A field of the writer with what follows it, as the reader's lines hold it.\<close>

lemma lines_field:
  assumes "c \<noteq> cr" "c \<noteq> dquote"
  shows "crlf_to_lf (csv_field f @ c # rest) =
     (if fieldNeedsQuotes f then dquote # csv_escape (crlf_to_lf f) @ [dquote] else f) @ c # crlf_to_lf rest"
proof (cases "fieldNeedsQuotes f")
  case True
  have dq: "dquote \<noteq> cr" "dquote \<noteq> nl" by (simp_all add: dquote_def cr_def nl_def)
  have "crlf_to_lf (csv_field f @ c # rest) = dquote # crlf_to_lf (csv_escape f @ dquote # c # rest)"
    using True dq by (simp add: csv_field_def crlf_keep)
  also have "\<dots> = dquote # crlf_to_lf (csv_escape f) @ crlf_to_lf (dquote # c # rest)"
    using crlf_before[OF dq(2)] by simp
  also have "\<dots> = dquote # csv_escape (crlf_to_lf f) @ dquote # c # crlf_to_lf rest"
    using dq assms by (simp add: crlf_keep crlf_escape)
  finally show ?thesis using True by simp
next
  case False
  show ?thesis using False crlf_after[OF unquoted_no_cr[OF False], of "c # rest"] assms
    by (simp add: csv_field_def crlf_keep)
qed

lemma read_bare: "plain f \<Longrightarrow> csv_read InBare cur rcd done (f @ rest) = csv_read InBare (cur @ f) rcd done rest"
  by (induction f arbitrary: cur) (auto simp: plain_def)

lemma read_bare_start:
  "plain f \<Longrightarrow> f \<noteq> [] \<Longrightarrow> csv_read AtField [] rcd done (f @ rest) = csv_read InBare f rcd done rest"
  using read_bare[of "tl f" "[hd f]" rcd "done" rest]
  by (cases f) (auto simp: plain_def)

lemma read_quoted:
  "csv_read InQuoted cur rcd done (csv_escape f @ dquote # rest) = csv_read AfterQuote (cur @ f) rcd done rest"
  by (induction f arbitrary: cur) auto

lemma comma_other: "CHR '','' \<noteq> cr" "CHR '','' \<noteq> dquote" "CHR '','' \<noteq> nl"
  by (simp_all add: cr_def dquote_def nl_def)

lemma nl_other: "nl \<noteq> cr" "nl \<noteq> dquote" "nl \<noteq> CHR '',''"
  by (simp_all add: cr_def dquote_def nl_def)

lemma read_field_comma:
  "csv_read AtField [] rcd done (crlf_to_lf (csv_field f @ CHR '','' # rest))
     = csv_read AtField [] (rcd @ [crlf_to_lf f]) done (crlf_to_lf rest)"
proof (cases "fieldNeedsQuotes f")
  case True
  then show ?thesis
    unfolding lines_field[OF comma_other(1) comma_other(2)]
    using read_quoted[of "[]" rcd "done" "crlf_to_lf f" "CHR '','' # crlf_to_lf rest"] comma_other
    by simp
next
  case False
  then have p: "plain f" by (rule unquoted_plain)
  have same: "crlf_to_lf f = f" using unquoted_no_cr[OF False] by (rule crlf_none)
  show ?thesis
  proof (cases "f = []")
    case True
    then show ?thesis unfolding lines_field[OF comma_other(1) comma_other(2)]
      using False comma_other by simp
  next
    case nonempty: False
    show ?thesis unfolding lines_field[OF comma_other(1) comma_other(2)] same
      using False read_bare_start[OF p nonempty, of rcd "done" "CHR '','' # crlf_to_lf rest"]
      by simp
  qed
qed

lemma read_field_nl:
  assumes "rcd \<noteq> []"
  shows "csv_read AtField [] rcd done (crlf_to_lf (csv_field f @ nl # rest))
     = csv_read AtField [] [] (done @ [rcd @ [crlf_to_lf f]]) (crlf_to_lf rest)"
proof (cases "fieldNeedsQuotes f")
  case True
  then show ?thesis
    unfolding lines_field[OF nl_other(1) nl_other(2)]
    using read_quoted[of "[]" rcd "done" "crlf_to_lf f" "nl # crlf_to_lf rest"] nl_other
    by simp
next
  case False
  then have p: "plain f" by (rule unquoted_plain)
  have same: "crlf_to_lf f = f" using unquoted_no_cr[OF False] by (rule crlf_none)
  show ?thesis
  proof (cases "f = []")
    case True
    then show ?thesis unfolding lines_field[OF nl_other(1) nl_other(2)]
      using False nl_other assms by simp
  next
    case nonempty: False
    show ?thesis unfolding lines_field[OF nl_other(1) nl_other(2)] same
      using False read_bare_start[OF p nonempty, of rcd "done" "nl # crlf_to_lf rest"] nl_other
      by simp
  qed
qed

lemma read_record:
  "r \<noteq> [] \<Longrightarrow> rcd \<noteq> [] \<or> 2 \<le> length r \<Longrightarrow>
   csv_read AtField [] rcd done (crlf_to_lf (csv_record r @ rest))
     = csv_read AtField [] [] (done @ [rcd @ map crlf_to_lf r]) (crlf_to_lf rest)"
proof (induction r arbitrary: rcd)
  case Nil
  then show ?case by simp
next
  case (Cons f fs)
  show ?case
  proof (cases fs)
    case Nil
    then have "rcd \<noteq> []" using Cons.prems by simp
    from read_field_nl[OF this, of "done" f rest] show ?thesis using Nil by (simp add: csv_record_def)
  next
    case (Cons g gs)
    have t: "csv_record (f # fs) @ rest = csv_field f @ CHR '','' # (csv_record fs @ rest)"
      using Cons by (simp add: csv_record_def)
    have "csv_read AtField [] (rcd @ [crlf_to_lf f]) done (crlf_to_lf (csv_record fs @ rest))
        = csv_read AtField [] [] (done @ [(rcd @ [crlf_to_lf f]) @ map crlf_to_lf fs]) (crlf_to_lf rest)"
      using Cons by (intro Cons.IH) simp_all
    then show ?thesis unfolding t read_field_comma by simp
  qed
qed

lemma read_records:
  "\<forall>r\<in>set rs. 2 \<le> length r \<Longrightarrow>
   csv_read AtField [] [] done (crlf_to_lf (concat (map csv_record rs))) = Some (done @ map (map crlf_to_lf) rs)"
proof (induction rs arbitrary: "done")
  case Nil then show ?case by simp
next
  case (Cons r rs)
  have r: "r \<noteq> []" "[] \<noteq> [] \<or> 2 \<le> length r" using Cons.prems by auto
  show ?case
    using read_record[OF r, of "done" "concat (map csv_record rs)"] Cons by simp
qed

lemma records_end: "drop_final_cr (concat (map csv_record rs)) = concat (map csv_record rs)"
proof (cases rs rule: rev_cases)
  case Nil then show ?thesis by (simp add: drop_final_cr_def)
next
  case (snoc ys y)
  then show ?thesis using nl_other by (simp add: drop_final_cr_def csv_record_def)
qed

lemma parse_csv_roundtrip:
  assumes "\<forall>r\<in>set rs. length r = n" and "2 \<le> n"
  shows "parse_csv (concat (map csv_record rs)) = Some (map (map crlf_to_lf) rs)"
proof -
  have "\<forall>r\<in>set rs. 2 \<le> length r" using assms by simp
  from read_records[OF this, of "[]"]
  have m: "csv_read AtField [] [] [] (read_lines (concat (map csv_record rs))) = Some (map (map crlf_to_lf) rs)"
    by (simp add: read_lines_def records_end)
  have "list_all (\<lambda>r. length r = length (hd (map (map crlf_to_lf) rs))) (map (map crlf_to_lf) rs)"
    using assms(1) by (cases rs) (auto simp: list_all_iff)
  then show ?thesis unfolding parse_csv_def m by simp
qed

lemma customer_record_email:
  "customer_record c ! 2 = (case DefaultEmailAddress (Node c) of None \<Rightarrow> [] | Some de \<Rightarrow> EmailAddress de)"
  by (simp add: customer_record_def)

lemma header_lines: "map crlf_to_lf header = header"
  by (simp add: header_def cr_def nl_def)

lemma export_text_parses:
  "parse_csv (csv_record header @ csv_rows customers)
     = Some (header # map (\<lambda>c. map crlf_to_lf (customer_record c)) customers)"
proof -
  have t: "csv_record header @ csv_rows customers
      = concat (map csv_record (header # map customer_record customers))"
    by (simp add: csv_rows_def comp_def)
  have "\<forall>r\<in>set (header # map customer_record customers). length r = 5"
    by (auto simp: header_def customer_record_def)
  from parse_csv_roundtrip[OF this] show ?thesis
    unfolding t by (simp add: header_lines comp_def)
qed

subsection \<open>Rounding\<close>

lemma round_last_nonneg: "0 \<le> t \<Longrightarrow> round_last t = (t + 5) div 10"
  by (simp add: round_last_def Let_def pos_imp_zdiv_neg_iff)

lemma neg_round_aux:
  fixes a :: int
  assumes "0 < a"
  shows "(if (- a) div 10 < 0 \<and> (- a) mod 10 \<noteq> 0 then (- a) div 10 + 1 else (- a) div 10) = - (a div 10)"
proof -
  have "(- a) div 10 < 0" using assms by (simp add: pos_imp_zdiv_neg_iff)
  moreover have "a mod 10 < 10" by simp
  ultimately show ?thesis by (auto simp: zdiv_zminus1_eq_if zmod_zminus1_eq_if)
qed

lemma round_last_neg:
  assumes "0 \<le> T"
  shows "round_last (- T) = - ((T + 5) div 10)"
proof (cases "T = 0")
  case True
  then show ?thesis by (simp add: round_last_def Let_def)
next
  case False
  then have pos: "0 < T" using assms by simp
  then have t: "- T < 0" by simp
  have e: "- T - 5 = - (T + 5)" by simp
  have "round_last (- T) =
     (if (- (T + 5)) div 10 < 0 \<and> (- (T + 5)) mod 10 \<noteq> 0 then (- (T + 5)) div 10 + 1
      else (- (T + 5)) div 10)"
    unfolding round_last_def Let_def if_P[OF t] e ..
  also have "\<dots> = - ((T + 5) div 10)"
    by (rule neg_round_aux) (use pos in simp)
  finally show ?thesis .
qed

lemma rescale_up:
  "- 3 \<le> e \<Longrightarrow> rescale \<lparr>dvalue = v, dexp = e\<rparr> (- 3) = \<lparr>dvalue = v * 10 ^ nat (e + 3), dexp = - 3\<rparr>"
proof -
  assume a: "- 3 \<le> e"
  then have "nat \<bar>- 3 - e\<bar> = nat (e + 3)" by simp
  with a show ?thesis by (cases "e = - 3") (simp_all add: rescale_def Let_def)
qed

lemma rescale_down:
  "e < - 3 \<Longrightarrow> rescale \<lparr>dvalue = v, dexp = e\<rparr> (- 3) = \<lparr>dvalue = Quo v (10 ^ nat (- 3 - e)), dexp = - 3\<rparr>"
proof -
  assume a: "e < - 3"
  then have "nat \<bar>- 3 - e\<bar> = nat (- 3 - e)" by simp
  with a show ?thesis by (simp add: rescale_def Let_def)
qed

lemma Round_step:
  "e \<noteq> - 2 \<Longrightarrow> Round \<lparr>dvalue = v, dexp = e\<rparr> 2 =
     \<lparr>dvalue = round_last (dvalue (rescale \<lparr>dvalue = v, dexp = e\<rparr> (- 3))), dexp = - 2\<rparr>"
  by (cases "- 3 \<le> e") (simp_all add: Round_def round_last_def Let_def rescale_up rescale_down)

lemma Quo_nonneg: "0 \<le> A \<Longrightarrow> 0 < M \<Longrightarrow> Quo A M = A div M"
  by (cases "A = 0") (simp_all add: Quo_def)

lemma Quo_neg: "0 < A \<Longrightarrow> 0 < M \<Longrightarrow> Quo (- A) M = - (A div M)"
  by (simp add: Quo_def)

lemma Round_nonneg:
  assumes "0 \<le> A" "e \<noteq> - 2"
  shows "Round \<lparr>dvalue = A, dexp = e\<rparr> 2 = \<lparr>dvalue = mag A e, dexp = - 2\<rparr>"
proof (cases "- 3 \<le> e")
  case True
  have "0 \<le> A * 10 ^ nat (e + 3)" using assms(1) by simp
  then show ?thesis using True assms(2)
    by (simp add: Round_step rescale_up round_last_nonneg mag_def)
next
  case False
  have "0 \<le> A div 10 ^ nat (- 3 - e)" using assms(1) by (simp add: pos_imp_zdiv_nonneg_iff)
  then show ?thesis using False assms
    by (simp add: Round_step rescale_down round_last_nonneg mag_def Quo_nonneg)
qed

lemma Round_neg:
  assumes "0 < A" "e \<noteq> - 2"
  shows "Round \<lparr>dvalue = - A, dexp = e\<rparr> 2 = \<lparr>dvalue = - mag A e, dexp = - 2\<rparr>"
proof (cases "- 3 \<le> e")
  case True
  have "0 \<le> A * 10 ^ nat (e + 3)" using assms(1) by simp
  then show ?thesis using True assms(2) round_last_neg[of "A * 10 ^ nat (e + 3)"]
    by (simp add: Round_step rescale_up mag_def)
next
  case False
  have "0 \<le> A div 10 ^ nat (- 3 - e)" using assms(1) by (simp add: pos_imp_zdiv_nonneg_iff)
  then show ?thesis using False assms round_last_neg[of "A div 10 ^ nat (- 3 - e)"]
    by (simp add: Round_step rescale_down mag_def Quo_neg)
qed


lemma floor_int_half: "\<lfloor>(of_int N :: rat) + 1 / 2\<rfloor> = N"
  by linarith

lemma floor_half:
  assumes "0 < (M::int)"
  shows "\<lfloor>(of_int A :: rat) / of_int (10 * M) + 1 / 2\<rfloor> = (A div M + 5) div 10"
proof -
  have "(of_int A :: rat) / of_int (10 * M) + 1 / 2 = of_int (A + 5 * M) / of_int (10 * M)"
    using assms by (simp add: field_simps)
  then have "\<lfloor>(of_int A :: rat) / of_int (10 * M) + 1 / 2\<rfloor> = (A + 5 * M) div (10 * M)"
    by (simp only: floor_divide_of_int_eq)
  also have "\<dots> = (A + 5 * M) div (M * 10)" by (simp add: mult.commute)
  also have "\<dots> = (A + 5 * M) div M div 10" by (rule zdiv_zmult2_eq) simp
  also have "(A + 5 * M) div M = A div M + 5" using assms by simp
  finally show ?thesis .
qed

lemma value_cents:
  "\<lfloor>decimal_value \<lparr>dvalue = A, dexp = e\<rparr> * 100 + 1 / 2\<rfloor> = (if e = - 2 then A else mag A e)"
proof -
  consider "0 \<le> e" | "e = - 1" | "e = - 2" | "e \<le> - 3" by linarith
  then show ?thesis
  proof cases
    case 1
    then have n: "nat (e + 3) = nat e + 3" by simp
    have "decimal_value \<lparr>dvalue = A, dexp = e\<rparr> * 100 + 1 / 2 = of_int (A * 10 ^ nat e * 100) + 1 / 2"
      using 1 by (simp add: decimal_value_def)
    then have "\<lfloor>decimal_value \<lparr>dvalue = A, dexp = e\<rparr> * 100 + 1 / 2\<rfloor> = A * 10 ^ nat e * 100"
      by (simp only: floor_int_half)
    moreover have "mag A e = A * 10 ^ nat e * 100"
    proof -
      define B where "B = A * 10 ^ nat e * 100"
      have "A * 10 ^ nat (e + 3) = B * 10"
        by (simp add: B_def n power_add)
      then have "mag A e = (B * 10 + 5) div 10" using 1 by (simp add: mag_def)
      also have "\<dots> = B" by linarith
      finally show ?thesis by (simp add: B_def)
    qed
    ultimately show ?thesis using 1 by simp
  next
    case 2
    have "decimal_value \<lparr>dvalue = A, dexp = e\<rparr> * 100 + 1 / 2 = of_int (A * 10) + 1 / 2"
      using 2 by (simp add: decimal_value_def)
    then have "\<lfloor>decimal_value \<lparr>dvalue = A, dexp = e\<rparr> * 100 + 1 / 2\<rfloor> = A * 10"
      by (simp only: floor_int_half)
    moreover have "mag A e = A * 10" using 2 by (simp add: mag_def)
    ultimately show ?thesis using 2 by simp
  next
    case 3
    have "decimal_value \<lparr>dvalue = A, dexp = e\<rparr> * 100 + 1 / 2 = of_int A + 1 / 2"
      using 3 by (simp add: decimal_value_def)
    then have "\<lfloor>decimal_value \<lparr>dvalue = A, dexp = e\<rparr> * 100 + 1 / 2\<rfloor> = A"
      by (simp only: floor_int_half)
    then show ?thesis using 3 by simp
  next
    case 4
    let ?M = "(10::int) ^ nat (- 3 - e)"
    have n: "nat (- e) = nat (- 3 - e) + 3" using 4 by simp
    have M: "0 < ?M" by simp
    have "decimal_value \<lparr>dvalue = A, dexp = e\<rparr> * 100 + 1 / 2 = of_int A / of_int (10 * ?M) + 1 / 2"
      using 4 by (simp add: decimal_value_def n power_add)
    then have "\<lfloor>decimal_value \<lparr>dvalue = A, dexp = e\<rparr> * 100 + 1 / 2\<rfloor> = (A div ?M + 5) div 10"
      by (simp only: floor_half[OF M])
    moreover have "mag A e = (A div ?M + 5) div 10"
      using 4 by (cases "e = - 3") (simp_all add: mag_def)
    ultimately show ?thesis using 4 by simp
  qed
qed

lemma decimal_value_neg:
  "decimal_value \<lparr>dvalue = - A, dexp = e\<rparr> = - decimal_value \<lparr>dvalue = A, dexp = e\<rparr>"
  by (simp add: decimal_value_def)

lemma decimal_value_sign:
  "(decimal_value \<lparr>dvalue = v, dexp = e\<rparr> < 0) = (v < 0)"
  by (simp add: decimal_value_def divide_less_0_iff mult_less_0_iff)

lemma half_up_value:
  "half_up_cents (decimal_value \<lparr>dvalue = v, dexp = e\<rparr>) =
     (if e = - 2 then v else if v < 0 then - mag (- v) e else mag v e)"
proof (cases "v < 0")
  case True
  have "- decimal_value \<lparr>dvalue = v, dexp = e\<rparr> = decimal_value \<lparr>dvalue = - v, dexp = e\<rparr>"
    by (simp add: decimal_value_neg)
  then have "\<lfloor>- decimal_value \<lparr>dvalue = v, dexp = e\<rparr> * 100 + 1 / 2\<rfloor> = (if e = - 2 then - v else mag (- v) e)"
    by (simp only: value_cents)
  then show ?thesis using True by (simp add: half_up_cents_def decimal_value_sign)
next
  case False
  then show ?thesis by (simp add: half_up_cents_def decimal_value_sign value_cents)
qed

lemma Round_half_up:
  "Round d 2 = \<lparr>dvalue = half_up_cents (decimal_value d), dexp = - 2\<rparr>"
proof -
  obtain v e where d: "d = \<lparr>dvalue = v, dexp = e\<rparr>" by (cases d) simp
  show ?thesis
  proof (cases "e = - 2")
    case True
    then show ?thesis by (simp add: d half_up_value Round_def)
  next
    case False
    show ?thesis
    proof (cases "v < 0")
      case True
      then have "Round \<lparr>dvalue = - (- v), dexp = e\<rparr> 2 = \<lparr>dvalue = - mag (- v) e, dexp = - 2\<rparr>"
        using False by (intro Round_neg) simp_all
      then show ?thesis using True False by (simp add: d half_up_value)
    next
      case nonneg: False
      then show ?thesis using False by (simp add: d half_up_value Round_nonneg)
    qed
  qed
qed

lemma digit_char_mod: "digit_char (n mod 10) = digit_char n"
  by (simp add: digit_char_def)

lemma digit_char_0: "digit_char 0 = CHR ''0''"
  by (simp add: digit_char_def)

lemma nat_digits_small: "n < 10 \<Longrightarrow> nat_digits n = [digit_char n]"
  by (simp add: nat_digits.simps)

lemma nat_digits_two: "10 \<le> n \<Longrightarrow> n < 100 \<Longrightarrow> nat_digits n = [digit_char (n div 10), digit_char n]"
  by (subst nat_digits.simps) (simp add: nat_digits_small digit_char_mod)

lemma nat_digits_more:
  assumes "100 \<le> n"
  shows "nat_digits n = nat_digits (n div 100) @ [digit_char (n div 10), digit_char n]"
proof -
  have a: "nat_digits n = nat_digits (n div 10) @ [digit_char n]"
    using assms by (subst nat_digits.simps) (simp add: digit_char_mod)
  have "10 \<le> n div 10" using assms by simp
  then have b: "nat_digits (n div 10) = nat_digits (n div 10 div 10) @ [digit_char (n div 10)]"
    by (subst nat_digits.simps) (simp add: digit_char_mod)
  have "n div 10 div 10 = n div 100" by (simp add: div_mult2_eq[symmetric])
  with a b show ?thesis by simp
qed

lemma nat_digits_nonempty: "nat_digits n \<noteq> []"
  by (subst nat_digits.simps) simp

lemma decimal_string_cents: "decimal_string \<lparr>dvalue = q, dexp = - 2\<rparr> = fmt_cents q"
proof -
  define a where "a = nat \<bar>q\<bar>"
  consider "a < 10" | "10 \<le> a" "a < 100" | "100 \<le> a" by linarith
  then show ?thesis
  proof cases
    case 1
    then show ?thesis
      by (simp add: decimal_string_def fmt_cents_def Let_def a_def[symmetric] nat_digits_small digit_char_0)
  next
    case 2
    then show ?thesis
      by (simp add: decimal_string_def fmt_cents_def Let_def a_def[symmetric] nat_digits_two nat_digits_small digit_char_0)
  next
    case 3
    then show ?thesis
      using nat_digits_nonempty[of "a div 100"]
      by (simp add: decimal_string_def fmt_cents_def Let_def a_def[symmetric] nat_digits_more)
  qed
qed

lemma StringFixed_half_up: "StringFixed d 2 = fmt_cents (half_up_cents (decimal_value d))"
  by (simp add: StringFixed_def Round_half_up decimal_string_cents)

lemma is_digit_digit_char: "is_digit (digit_char n)"
  unfolding is_digit_def digit_char_def by (rule nth_mem) simp

lemma nat_digits_digits: "ch \<in> set (nat_digits n) \<Longrightarrow> is_digit ch"
proof (induction n rule: nat_digits.induct)
  case (1 n)
  show ?case
  proof (cases "n < 10")
    case True
    with 1 show ?thesis by (simp add: nat_digits_small is_digit_digit_char)
  next
    case False
    have "nat_digits n = nat_digits (n div 10) @ [digit_char (n mod 10)]"
      using False by (subst nat_digits.simps) simp
    with 1 False show ?thesis by (auto simp: is_digit_digit_char)
  qed
qed

lemma is_digit_not_point: "is_digit ch \<Longrightarrow> ch \<noteq> CHR ''.''"
  by (auto simp: is_digit_def)

lemma fmt_cents_two_decimals: "two_decimals (fmt_cents q)"
proof -
  let ?P = "\<lambda>ch. ch \<noteq> CHR ''.''"
  define a where "a = nat \<bar>q\<bar>"
  define pre where "pre = (if q < 0 then ''-'' else []) @ nat_digits (a div 100)"
  have f: "fmt_cents q = pre @ ''.'' @ [digit_char (a div 10), digit_char a]"
    by (simp add: fmt_cents_def Let_def a_def pre_def)
  have "\<forall>ch\<in>set pre. ?P ch"
    using nat_digits_digits[of _ "a div 100"] is_digit_not_point by (auto simp: pre_def)
  then have "dropWhile ?P (pre @ ''.'' @ [digit_char (a div 10), digit_char a])
      = dropWhile ?P (''.'' @ [digit_char (a div 10), digit_char a])"
    by (intro dropWhile_append2) blast
  then show ?thesis unfolding f two_decimals_def by (simp add: is_digit_digit_char)
qed

subsection \<open>The example runs\<close>

lemma jane_line: "csv_record (customer_record jane) = ''gid://1,Jane Doe,,100.00,USD'' @ [nl]"
  by (simp add: jane_def customer_record_def StringFixed_def Round_def rescale_def decimal_string_def
      Let_def nat_digits.simps digit_char_def csv_record_def csv_field_def fieldNeedsQuotes_def
      first_rune_is_space_def space_runes_def nl_def cr_def dquote_def)

lemma blank_line: "csv_record (customer_record blank) = ''gid://2,John Roe,,12.35,USD'' @ [nl]"
  by (simp add: blank_def customer_record_def StringFixed_def Round_def rescale_def decimal_string_def
      Let_def nat_digits.simps digit_char_def csv_record_def csv_field_def fieldNeedsQuotes_def
      first_rune_is_space_def space_runes_def nl_def cr_def dquote_def)

lemma wrapped_line:
  "csv_record (customer_record wrapped)
     = ''gid://3,Ann Poe,'' @ [dquote] @ ''ann@example.com'' @ [cr, nl, dquote] @ '',5.00,USD'' @ [nl]"
  by (simp add: wrapped_def customer_record_def StringFixed_def Round_def rescale_def decimal_string_def
      Let_def nat_digits.simps digit_char_def csv_record_def csv_field_def fieldNeedsQuotes_def
      first_rune_is_space_def space_runes_def nl_def cr_def dquote_def)

lemma example_env_takes: "\<forall>k. dest_write (example_env l out dec) k = None"
  by (simp add: example_env_def)

lemma example_env_opens: "filename \<noteq> [] \<longrightarrow> create_err (example_env l out dec) filename = None"
  by (simp add: example_env_def)

text \<open>An export that has the time for every write is not cancelled.\<close>

lemma export_in_time:
  assumes ok: "\<forall>k. dest_write e k = None"
    and opened: "filename \<noteq> [] \<longrightarrow> create_err e filename = None"
    and time: "now w + (\<Sum>j<Suc (length customers). write_cost e j) < deadline ctx"
  shows "fst (exportToCSV e ctx customers filename w) = None"
proof -
  from export_taken[OF ok opened, of customers w ctx] obtain n where
    n: "n \<le> length customers"
       "now (snd (exportToCSV e ctx customers filename w)) = now w + (\<Sum>j<Suc n. write_cost e j)"
       "fst (exportToCSV e ctx customers filename w) = None \<and> n = length customers \<or>
        fst (exportToCSV e ctx customers filename w) = Some Cancelled \<and> n < length customers \<and>
        ctx_Done ctx (snd (exportToCSV e ctx customers filename w))"
    by blast
  have "(\<Sum>j<Suc n. write_cost e j) \<le> (\<Sum>j<Suc (length customers). write_cost e j)"
    using n(1) by (intro sum_mono2) auto
  then have "\<not> ctx_Done ctx (snd (exportToCSV e ctx customers filename w))"
    using time n(2) by (simp add: ctx_Done_def)
  then show ?thesis using n(3) by blast
qed

lemma example_export_in_time:
  "length cs < 4999 \<Longrightarrow>
   fst (exportToCSV (example_env l out dec) \<lparr>deadline = 5000\<rparr> cs ''customers.csv'' start) = None"
  by (intro export_in_time example_env_takes example_env_opens) (simp add: example_env_def start_def)

lemma example_export_cancelled:
  "fst (exportToCSV (example_env l out dec) \<lparr>deadline = 2\<rparr> [c, c'] ''customers.csv'' start) = Some Cancelled"
proof -
  let ?e = "example_env l out dec"
  let ?x = "exportToCSV ?e \<lparr>deadline = 2\<rparr> [c, c'] ''customers.csv'' start"
  have t: "\<forall>k. dest_write ?e k = None" by (rule example_env_takes)
  have o: "''customers.csv'' \<noteq> [] \<longrightarrow> create_err ?e ''customers.csv'' = None"
    by (rule example_env_opens)
  from export_taken[OF t o, of "[c, c']" start "\<lparr>deadline = 2\<rparr>"]
  obtain n where
    n: "n \<le> length [c, c']"
       "\<forall>i<n. \<not> deadline \<lparr>deadline = 2\<rparr> \<le> now start + (\<Sum>j<Suc i. write_cost ?e j)"
       "fst ?x = None \<and> n = length [c, c'] \<or>
        fst ?x = Some Cancelled \<and> n < length [c, c'] \<and> ctx_Done \<lparr>deadline = 2\<rparr> (snd ?x)"
    by blast
  have "n \<noteq> 2"
  proof
    assume "n = 2"
    then have "1 < n" by simp
    from n(2)[rule_format, OF this]
    have "\<not> deadline \<lparr>deadline = 2\<rparr> \<le> now start + (\<Sum>j<Suc 1. write_cost ?e j)" .
    then show False by (simp add: example_env_def start_def)
  qed
  then show ?thesis using n(3) by auto
qed

subsection \<open>Error messages\<close>

lemma join_holds:
  "x \<in> set xs \<Longrightarrow> \<exists>pre post. join sep xs = pre @ x @ post"
proof (induction sep xs rule: join.induct)
  case (1 sep)
  then show ?case by simp
next
  case (2 sep y)
  then have "join sep [y] = [] @ x @ []" by simp
  then show ?case by blast
next
  case (3 sep y z zs)
  show ?case
  proof (cases "x = y")
    case True
    then have "join sep (y # z # zs) = [] @ x @ (sep @ join sep (z # zs))" by simp
    then show ?thesis by blast
  next
    case False
    with 3 obtain pre post where "join sep (z # zs) = pre @ x @ post" by auto
    then have "join sep (y # z # zs) = (y @ sep @ pre) @ x @ post" by simp
    then show ?thesis by blast
  qed
qed

lemma fmt_errors_holds:
  assumes "m \<in> set (map Message es)"
  shows "\<exists>pre post. fmt_errors es = pre @ ''{'' @ m @ ''}'' @ post"
proof -
  have "''{'' @ m @ ''}'' \<in> set (map (\<lambda>e. ''{'' @ Message e @ ''}'') es)"
    using assms by auto
  from join_holds[OF this, of "'' ''"] obtain pre post where
    "join '' '' (map (\<lambda>e. ''{'' @ Message e @ ''}'') es) = pre @ (''{'' @ m @ ''}'') @ post"
    by blast
  then have "fmt_errors es = (''['' @ pre) @ ''{'' @ m @ ''}'' @ (post @ '']'')"
    by (simp add: fmt_errors_def)
  then show ?thesis by blast
qed

subsection \<open>The deadline during the query\<close>

lemma query_timeout:
  assumes "json_marshal e request = Inr body"
    and "new_request_err e (api_url domain) = None"
    and "transport e (api_request domain accessToken body) = (latency, outcome)"
    and "deadline ctx \<le> now w + latency"
    and "deadline ctx \<le> now w + client_Timeout"
  shows "executeGraphQLQuery e ctx domain accessToken request w
           = (Inl Timeout, w\<lparr>now := max (now w) (deadline ctx)\<rparr>)"
  using assms
  by (simp add: executeGraphQLQuery_def client_Do_def Let_def ctx_Err_def min_def max_def api_request_def)

text \<open>
  Under \<open>main\<close> the context's deadline and the client's timeout are both 5 seconds and
  the context is made first: an answer that takes 5 seconds or more ends the run with the
  timeout error.
\<close>

lemma action_timeout:
  assumes "getenv e ''SHOPIFY_DOMAIN'' \<noteq> []" and "getenv e ''SHOPIFY_ACCESS_TOKEN'' \<noteq> []"
    and "json_marshal e (build_request c) = Inr body"
    and "new_request_err e (api_url (getenv e ''SHOPIFY_DOMAIN'')) = None"
    and "transport e (api_request (getenv e ''SHOPIFY_DOMAIN'') (getenv e ''SHOPIFY_ACCESS_TOKEN'') body)
           = (latency, outcome)"
    and "5000 \<le> latency"
  shows "action e c w = (Some (QueryFailed Timeout), w\<lparr>now := now w + 5000\<rparr>)"
proof -
  have "executeGraphQLQuery e \<lparr>deadline = now w + 5000\<rparr> (getenv e ''SHOPIFY_DOMAIN'')
          (getenv e ''SHOPIFY_ACCESS_TOKEN'') (build_request c) w
        = (Inl Timeout, w\<lparr>now := max (now w) (deadline \<lparr>deadline = now w + 5000\<rparr>)\<rparr>)"
    using assms(3-6) by (intro query_timeout) (simp_all add: client_Timeout_def)
  then show ?thesis using assms(1,2) by (simp add: action_def fetchAndExportCustomers_def Let_def max_def)
qed

section \<open>The claims\<close>

subsection \<open>Query builder\<close>

lemma variables_lookup:
  "variables c ''first'' = Some (JInt (first c))"
  "variables c ''query'' = Some (JString (query c))"
  "variables c ''sortKey'' = Some (JString (sortKey c))"
  "variables c ''reverse'' = Some (JBool (reverse c))"
  by (simp_all add: variables_def)

lemma variables_dom: "dom (variables c) = {''first'', ''query'', ''sortKey'', ''reverse''}"
  unfolding variables_def by (simp only: dom_fun_upd dom_empty option.simps if_False) blast

lemma variables_inj:
  "(variables c = variables c') =
     (first c = first c' \<and> query c = query c' \<and> sortKey c = sortKey c' \<and> reverse c = reverse c')"
proof
  assume eq: "variables c = variables c'"
  have "variables c ''first'' = variables c' ''first''"
    "variables c ''query'' = variables c' ''query''"
    "variables c ''sortKey'' = variables c' ''sortKey''"
    "variables c ''reverse'' = variables c' ''reverse''"
    by (simp_all only: eq)
  then show "first c = first c' \<and> query c = query c' \<and> sortKey c = sortKey c' \<and> reverse c = reverse c'"
    by (simp only: variables_lookup option.inject json_value.inject simp_thms)
next
  assume "first c = first c' \<and> query c = query c' \<and> sortKey c = sortKey c' \<and> reverse c = reverse c'"
  then show "variables c = variables c'" by (simp only: variables_def)
qed

text \<open>
  C8. For all flag values, the variables mapping of the request has exactly the four keys
  \<open>first\<close>, \<open>query\<close>, \<open>sortKey\<close> and \<open>reverse\<close>, each bound to the flag's own value
  under a constructor of its own type (item count, filter expression, sort key, sort
  direction), and the query text is the fixed document. Nothing is lost: two mappings are
  equal exactly when the four flags are.
\<close>

theorem variables_exact:
  "dom (Variables (build_request c)) = {''first'', ''query'', ''sortKey'', ''reverse''} \<and>
   Variables (build_request c) ''first'' = Some (JInt (first c)) \<and>
   Variables (build_request c) ''query'' = Some (JString (query c)) \<and>
   Variables (build_request c) ''sortKey'' = Some (JString (sortKey c)) \<and>
   Variables (build_request c) ''reverse'' = Some (JBool (reverse c)) \<and>
   Query (build_request c) = query_text \<and>
   (Variables (build_request c) = Variables (build_request c')) =
     (first c = first c' \<and> query c = query c' \<and> sortKey c = sortKey c' \<and> reverse c = reverse c')"
proof -
  have v: "Variables (build_request c) = variables c" for c by (simp add: build_request_def)
  have q: "Query (build_request c) = query_text" by (simp add: build_request_def)
  show ?thesis unfolding v
    using variables_dom[of c] variables_lookup[of c] q variables_inj[of c c'] by blast
qed

theorem variables_exact_witness:
  "dom (Variables (build_request example_flags)) = {''first'', ''query'', ''sortKey'', ''reverse''} \<and>
   Variables (build_request example_flags) ''first'' = Some (JInt 50) \<and>
   Variables (build_request example_flags) ''query'' = Some (JString ''customer_tags CONTAINS vip'') \<and>
   Variables (build_request example_flags) ''sortKey'' = Some (JString ''amount_spent'') \<and>
   Variables (build_request example_flags) ''reverse'' = Some (JBool True)"
proof -
  have f: "first example_flags = 50" "query example_flags = ''customer_tags CONTAINS vip''"
    "sortKey example_flags = ''amount_spent''" "reverse example_flags = True"
    by (simp_all add: example_flags_def)
  show ?thesis using variables_exact[of example_flags example_flags] unfolding f by blast
qed

subsection \<open>API client\<close>

text \<open>
  C2. When the server's answer arrives in time and its status is not 200, the query fails
  with an \<open>HttpError\<close> that carries the status code and the bytes of the body as they
  were read, whatever the JSON decoder would do with the body: the decoder is not
  consulted. Its message is \<open>HTTP\<close>, the status in decimal, a colon and the body.
\<close>

theorem http_error_carries_status_and_body:
  assumes "json_marshal e request = Inr body"
    and "new_request_err e (api_url domain) = None"
    and "transport e (api_request domain accessToken body) = (latency, Inr resp)"
    and "now w + latency < deadline ctx"
    and "latency < client_Timeout"
    and "StatusCode resp \<noteq> 200"
  shows "executeGraphQLQuery (e\<lparr>json_decode := dec\<rparr>) ctx domain accessToken request w
           = (Inl (HttpError (StatusCode resp) (data (Body resp))), w\<lparr>now := now w + latency\<rparr>)
       \<and> error_message (HttpError (StatusCode resp) (data (Body resp)))
           = ''HTTP '' @ itoa (StatusCode resp) @ '': '' @ data (Body resp)"
  using assms
  by (simp add: executeGraphQLQuery_def client_Do_def Let_def io_ReadAll_def api_request_def)

theorem http_error_401_witness:
  "executeGraphQLQuery (example_env 10 (Inr unauthorized) (Inr (response [jane] []))) \<lparr>deadline = 5000\<rparr>
      ''shop.example'' ''secret'' (build_request example_flags) start
     = (Inl (HttpError 401 ''Unauthorized''), start\<lparr>now := 10\<rparr>)
   \<and> error_message (HttpError 401 ''Unauthorized'') = ''HTTP 401: Unauthorized''"
  using http_error_carries_status_and_body[of "example_env 10 (Inr unauthorized) (Inr (response [jane] []))"
      "build_request example_flags" "''{}''" "''shop.example''" "''secret''" 10 unauthorized start
      "\<lparr>deadline = 5000\<rparr>" "\<lambda>b. (1, Inr (response [jane] []))"]
  by (simp add: example_env_def unauthorized_def start_def client_Timeout_def
      itoa_def nat_digits.simps digit_char_def)

text \<open>
  C3. The claim asks for \<open>Timeout\<close> whenever the deadline elapses before the response
  is obtained, and the deadline covers the receiving of the response. Here the server's
  status line and headers arrive after 10 ms with status 200, and the reading of the
  body, which the decoder does, is still going on when the deadline of 5000 ms is reached
  and ends with the context's error. The query then returns a decode error although the
  context is done: only the failure of \<open>client.Do\<close> is tested against the context's
  error (line 156), the failure of the decoder is not (lines 169-171).
\<close>

theorem deadline_during_body_read:
  "executeGraphQLQuery
      ((example_env 10 (Inr ok_body) (Inr (response [jane] [])))
         \<lparr>json_decode := \<lambda>b. (4990, Inl ''context deadline exceeded'')\<rparr>)
      \<lparr>deadline = 5000\<rparr> ''shop.example'' ''secret'' (build_request example_flags) start
     = (Inl (DecodeError ''context deadline exceeded''), start\<lparr>now := 5000\<rparr>)
   \<and> ctx_Err \<lparr>deadline = 5000\<rparr> (start\<lparr>now := 5000\<rparr>) = Some DeadlineExceeded
   \<and> DecodeError ''context deadline exceeded'' \<noteq> Timeout
   \<and> error_message (DecodeError ''context deadline exceeded'')
       = ''failed to decode response: context deadline exceeded''
   \<and> error_message Timeout = ''operation timed out after 5 seconds''"
  by (simp add: executeGraphQLQuery_def client_Do_def Let_def example_env_def ok_body_def
      start_def client_Timeout_def ctx_Err_def)

text \<open>
  C1 (amended). When the answer has status 200 and decodes to a response with a non-empty
  list of errors, \<open>executeGraphQLQuery\<close> itself returns the decoded response, errors and
  records, as a success; its caller \<open>fetchAndExportCustomers\<close> then fails with the
  GraphQL error made from that list, whose message holds every message of the list in
  braces, and the exporter is not run: the world has changed in nothing but the clock.
\<close>

theorem graphql_errors_fail_in_pipeline:
  assumes "getenv e ''SHOPIFY_DOMAIN'' \<noteq> []" and "getenv e ''SHOPIFY_ACCESS_TOKEN'' \<noteq> []"
    and "json_marshal e (build_request c) = Inr body"
    and "new_request_err e (api_url (getenv e ''SHOPIFY_DOMAIN'')) = None"
    and "transport e (api_request (getenv e ''SHOPIFY_DOMAIN'') (getenv e ''SHOPIFY_ACCESS_TOKEN'') body)
           = (latency, Inr http)"
    and "now w + latency < deadline ctx" and "latency < client_Timeout"
    and "StatusCode http = 200"
    and "json_decode e (Body http) = (cost, Inr resp)"
    and "Errors resp \<noteq> []"
  shows "executeGraphQLQuery e ctx (getenv e ''SHOPIFY_DOMAIN'') (getenv e ''SHOPIFY_ACCESS_TOKEN'')
           (build_request c) w = (Inr resp, w\<lparr>now := now w + latency + cost\<rparr>)
       \<and> fetchAndExportCustomers e ctx c w
           = (Some (GraphQLErrors (Errors resp)), w\<lparr>now := now w + latency + cost\<rparr>)
       \<and> error_message (GraphQLErrors (Errors resp)) = ''GraphQL errors: '' @ fmt_errors (Errors resp)
       \<and> (\<forall>m\<in>set (map Message (Errors resp)).
            \<exists>pre post. error_message (GraphQLErrors (Errors resp)) = pre @ ''{'' @ m @ ''}'' @ post)"
proof -
  have query: "executeGraphQLQuery e ctx (getenv e ''SHOPIFY_DOMAIN'') (getenv e ''SHOPIFY_ACCESS_TOKEN'')
           (build_request c) w = (Inr resp, w\<lparr>now := now w + latency + cost\<rparr>)"
    using assms(3-9)
    by (simp add: executeGraphQLQuery_def client_Do_def Let_def api_request_def add.assoc)
  have run: "fetchAndExportCustomers e ctx c w
      = (Some (GraphQLErrors (Errors resp)), w\<lparr>now := now w + latency + cost\<rparr>)"
    using assms(1,2,10) query by (simp add: fetchAndExportCustomers_def Let_def)
  have held: "\<exists>pre post. error_message (GraphQLErrors (Errors resp)) = pre @ ''{'' @ m @ ''}'' @ post"
    if "m \<in> set (map Message (Errors resp))" for m
  proof -
    from fmt_errors_holds[OF that] obtain pre post where
      "fmt_errors (Errors resp) = pre @ ''{'' @ m @ ''}'' @ post" by blast
    then have "error_message (GraphQLErrors (Errors resp))
        = (''GraphQL errors: '' @ pre) @ ''{'' @ m @ ''}'' @ post" by simp
    then show ?thesis by blast
  qed
  show ?thesis using query run held by simp
qed

theorem graphql_errors_witness:
  "fetchAndExportCustomers
      (example_env 10 (Inr ok_body) (Inr (response [jane] [\<lparr>Message = ''Access denied''\<rparr>])))
      \<lparr>deadline = 5000\<rparr> example_flags start
     = (Some (GraphQLErrors [\<lparr>Message = ''Access denied''\<rparr>]), start\<lparr>now := 11\<rparr>)
   \<and> files (start\<lparr>now := 11\<rparr>) = files start \<and> stdout (start\<lparr>now := 11\<rparr>) = stdout start
   \<and> error_message (GraphQLErrors [\<lparr>Message = ''Access denied''\<rparr>]) = ''GraphQL errors: [{Access denied}]''"
proof -
  let ?e = "example_env 10 (Inr ok_body) (Inr (response [jane] [\<lparr>Message = ''Access denied''\<rparr>]))"
  have c1: "getenv ?e ''SHOPIFY_DOMAIN'' \<noteq> []" and c2: "getenv ?e ''SHOPIFY_ACCESS_TOKEN'' \<noteq> []"
    and m: "json_marshal ?e (build_request example_flags) = Inr ''{}''"
    and u: "new_request_err ?e (api_url (getenv ?e ''SHOPIFY_DOMAIN'')) = None"
    and t: "transport ?e (api_request (getenv ?e ''SHOPIFY_DOMAIN'') (getenv ?e ''SHOPIFY_ACCESS_TOKEN'') ''{}'')
              = (10, Inr ok_body)"
    and d: "json_decode ?e (Body ok_body) = (1, Inr (response [jane] [\<lparr>Message = ''Access denied''\<rparr>]))"
    by (simp_all add: example_env_def)
  have i: "now start + 10 < deadline \<lparr>deadline = 5000\<rparr>" "(10::nat) < client_Timeout"
    and s: "StatusCode ok_body = 200"
    and ne: "Errors (response [jane] [\<lparr>Message = ''Access denied''\<rparr>]) \<noteq> []"
    by (simp_all add: start_def client_Timeout_def ok_body_def response_def)
  note r = graphql_errors_fail_in_pipeline[OF c1 c2 m u t i s d ne]
  have "fetchAndExportCustomers ?e \<lparr>deadline = 5000\<rparr> example_flags start
     = (Some (GraphQLErrors [\<lparr>Message = ''Access denied''\<rparr>]), start\<lparr>now := 11\<rparr>)"
    using r by (simp add: response_def start_def)
  moreover have "error_message (GraphQLErrors [\<lparr>Message = ''Access denied''\<rparr>])
      = ''GraphQL errors: [{Access denied}]''"
    by (simp add: fmt_errors_def)
  ultimately show ?thesis by simp
qed

text \<open>
  C1 as stated fails for the API client's own operation: given an answer that decodes to a
  response with an error and a record, \<open>executeGraphQLQuery\<close> returns that response as a
  success, the record in it.
\<close>

theorem execute_returns_response_with_errors:
  "executeGraphQLQuery
      (example_env 10 (Inr ok_body) (Inr (response [jane] [\<lparr>Message = ''Access denied''\<rparr>])))
      \<lparr>deadline = 5000\<rparr> ''shop.example'' ''secret'' (build_request example_flags) start
     = (Inr (response [jane] [\<lparr>Message = ''Access denied''\<rparr>]), start\<lparr>now := 11\<rparr>)
   \<and> Errors (response [jane] [\<lparr>Message = ''Access denied''\<rparr>]) = [\<lparr>Message = ''Access denied''\<rparr>]
   \<and> Edges (CustomerSegmentMembers (Data (response [jane] [\<lparr>Message = ''Access denied''\<rparr>]))) = [jane]"
  by (simp add: executeGraphQLQuery_def client_Do_def Let_def example_env_def ok_body_def
      start_def client_Timeout_def response_def)

text \<open>
  C10. Every failure of the pipeline other than a failure of the export itself (missing
  configuration, any failure of the query, GraphQL errors) leaves all files and the
  standard output as they were; and whenever a file has changed, the configuration was
  present and the query had returned a decoded response without errors.
\<close>

theorem no_file_before_export:
  assumes "fetchAndExportCustomers e ctx c w = (r, w')"
  shows "(\<forall>err. r = Some err \<and> (\<forall>x. err \<noteq> ExportFailed x) \<longrightarrow> files w' = files w \<and> stdout w' = stdout w)
       \<and> (files w' \<noteq> files w \<longrightarrow>
            getenv e ''SHOPIFY_DOMAIN'' \<noteq> [] \<and> getenv e ''SHOPIFY_ACCESS_TOKEN'' \<noteq> [] \<and>
            (\<exists>resp w1. executeGraphQLQuery e ctx (getenv e ''SHOPIFY_DOMAIN'') (getenv e ''SHOPIFY_ACCESS_TOKEN'')
                (build_request c) w = (Inr resp, w1) \<and> Errors resp = []))"
  using assms
  by (auto simp: fetchAndExportCustomers_def Let_def dest: exec_frame split: prod.splits sum.splits if_splits option.splits)

theorem no_file_before_export_witness:
  "fetchAndExportCustomers (example_env 10 (Inr unauthorized) (Inr (response [jane] [])))
      \<lparr>deadline = 5000\<rparr> example_flags start
     = (Some (QueryFailed (HttpError 401 ''Unauthorized'')), start\<lparr>now := 10\<rparr>)
   \<and> files (start\<lparr>now := 10\<rparr>) = files start \<and> stdout (start\<lparr>now := 10\<rparr>) = stdout start"
proof -
  let ?e = "example_env 10 (Inr unauthorized) (Inr (response [jane] []))"
  have run: "fetchAndExportCustomers ?e \<lparr>deadline = 5000\<rparr> example_flags start
     = (Some (QueryFailed (HttpError 401 ''Unauthorized'')), start\<lparr>now := 10\<rparr>)"
    by (simp add: fetchAndExportCustomers_def executeGraphQLQuery_def client_Do_def Let_def
        example_env_def unauthorized_def start_def client_Timeout_def io_ReadAll_def)
  show ?thesis using no_file_before_export[OF run] run by simp
qed

subsection \<open>CSV exporter\<close>






text \<open>
  C7. At every turn of the loop the context is polled before anything goes to the writer:
  when it is done the loop returns \<open>Cancelled\<close> at once and leaves the writer and the
  world as they are. With a destination that opens and takes every write, the export ends
  with \<open>Cancelled\<close> exactly when one of these polls, made after the header and the lines
  before the customer's have been written, finds the deadline reached. It has then
  written the header and the whole lines of the first n customers, n smaller than their
  number: the polls before these lines found the context not done, the poll before the
  next found it done, and nothing written is taken back.
\<close>

theorem cancel_checked_before_each_row:
  "(ctx_Done ctx w \<longrightarrow> export_rows e ctx k (c # cs) wr w = (Some Cancelled, wr, w))
   \<and> ((\<forall>k. dest_write e k = None) \<and> (filename \<noteq> [] \<longrightarrow> create_err e filename = None) \<longrightarrow>
        (fst (exportToCSV e ctx customers filename w0) = Some Cancelled) =
          (\<exists>i<length customers. deadline ctx \<le> now w0 + (\<Sum>j<Suc i. write_cost e j)))
   \<and> ((\<forall>k. dest_write e k = None) \<and> exportToCSV e ctx customers filename w0 = (Some Cancelled, w') \<longrightarrow>
        (\<exists>n<length customers.
           written filename w0 w' (csv_record header @ csv_rows (take n customers)) \<and>
           (\<forall>i<n. \<not> deadline ctx \<le> now w0 + (\<Sum>j<Suc i. write_cost e j)) \<and>
           deadline ctx \<le> now w0 + (\<Sum>j<Suc n. write_cost e j) \<and>
           ctx_Done ctx w'))"
proof -
  have a: "ctx_Done ctx w \<longrightarrow> export_rows e ctx k (c # cs) wr w = (Some Cancelled, wr, w)" by simp
  have b: "(fst (exportToCSV e ctx customers filename w0) = Some Cancelled) =
          (\<exists>i<length customers. deadline ctx \<le> now w0 + (\<Sum>j<Suc i. write_cost e j))"
    if h: "(\<forall>k. dest_write e k = None) \<and> (filename \<noteq> [] \<longrightarrow> create_err e filename = None)"
  proof -
    let ?x = "exportToCSV e ctx customers filename w0"
    from h have ok: "\<forall>k. dest_write e k = None"
      and o: "filename \<noteq> [] \<longrightarrow> create_err e filename = None" by simp_all
    from export_taken[OF ok o, of customers w0 ctx] obtain n where
      n: "n \<le> length customers"
         "now (snd ?x) = now w0 + (\<Sum>j<Suc n. write_cost e j)"
         "\<forall>i<n. \<not> deadline ctx \<le> now w0 + (\<Sum>j<Suc i. write_cost e j)"
         "fst ?x = None \<and> n = length customers \<or>
          fst ?x = Some Cancelled \<and> n < length customers \<and> ctx_Done ctx (snd ?x)"
      by blast
    show ?thesis
    proof
      assume "fst ?x = Some Cancelled"
      then have "n < length customers" "deadline ctx \<le> now w0 + (\<Sum>j<Suc n. write_cost e j)"
        using n(2,4) by (auto simp: ctx_Done_def)
      then show "\<exists>i<length customers. deadline ctx \<le> now w0 + (\<Sum>j<Suc i. write_cost e j)"
        by blast
    next
      assume "\<exists>i<length customers. deadline ctx \<le> now w0 + (\<Sum>j<Suc i. write_cost e j)"
      then obtain i where i: "i < length customers" "deadline ctx \<le> now w0 + (\<Sum>j<Suc i. write_cost e j)"
        by blast
      have "n \<noteq> length customers" using n(3) i by blast
      then show "fst ?x = Some Cancelled" using n(4) by blast
    qed
  qed
  have c: "\<exists>n<length customers.
           written filename w0 w' (csv_record header @ csv_rows (take n customers)) \<and>
           (\<forall>i<n. \<not> deadline ctx \<le> now w0 + (\<Sum>j<Suc i. write_cost e j)) \<and>
           deadline ctx \<le> now w0 + (\<Sum>j<Suc n. write_cost e j) \<and>
           ctx_Done ctx w'"
    if h: "(\<forall>k. dest_write e k = None) \<and> exportToCSV e ctx customers filename w0 = (Some Cancelled, w')"
  proof -
    from h have ok: "\<forall>k. dest_write e k = None"
      and run: "exportToCSV e ctx customers filename w0 = (Some Cancelled, w')" by simp_all
    have o: "filename \<noteq> [] \<longrightarrow> create_err e filename = None"
      using run by (auto simp: exportToCSV_def split: option.splits if_splits)
    from export_taken[OF ok o, of customers w0 ctx] obtain n where
      n: "n < length customers"
         "written filename w0 w' (csv_record header @ csv_rows (take n customers))"
         "now w' = now w0 + (\<Sum>j<Suc n. write_cost e j)"
         "\<forall>i<n. \<not> deadline ctx \<le> now w0 + (\<Sum>j<Suc i. write_cost e j)"
         "ctx_Done ctx w'"
      unfolding run by auto
    have "deadline ctx \<le> now w0 + (\<Sum>j<Suc n. write_cost e j)"
      using n(3,5) by (simp add: ctx_Done_def)
    then show ?thesis using n by (intro exI[of _ n]) simp
  qed
  show ?thesis
    apply (intro conjI)
      apply (rule a)
     apply (rule impI, erule b)
    apply (rule impI, erule c)
    done
qed

theorem cancel_checked_witness:
  "ctx_Done \<lparr>deadline = 2\<rparr> (start\<lparr>now := 2\<rparr>)
   \<and> export_rows (example_env 10 (Inr ok_body) (Inr (response [jane, blank] []))) \<lparr>deadline = 2\<rparr>
        2 [blank] \<lparr>wdest = File ''customers.csv'', wbuf = ''abc'', werr = None, wcount = 0\<rparr> (start\<lparr>now := 2\<rparr>)
       = (Some Cancelled, \<lparr>wdest = File ''customers.csv'', wbuf = ''abc'', werr = None, wcount = 0\<rparr>,
          start\<lparr>now := 2\<rparr>)
   \<and> fst (exportToCSV (example_env 10 (Inr ok_body) (Inr (response [jane, blank] []))) \<lparr>deadline = 2\<rparr>
          [jane, blank] ''customers.csv'' start) = Some Cancelled
   \<and> written ''customers.csv'' start
        (snd (exportToCSV (example_env 10 (Inr ok_body) (Inr (response [jane, blank] []))) \<lparr>deadline = 2\<rparr>
          [jane, blank] ''customers.csv'' start))
        (''ID,Display Name,Email Address,Amount Spent,Currency Code'' @ [nl] @
         ''gid://1,Jane Doe,,100.00,USD'' @ [nl])"
proof -
  let ?e = "example_env 10 (Inr ok_body) (Inr (response [jane, blank] []))"
  let ?x = "exportToCSV ?e \<lparr>deadline = 2\<rparr> [jane, blank] ''customers.csv'' start"
  let ?wr = "\<lparr>wdest = File ''customers.csv'', wbuf = ''abc'', werr = None, wcount = 0\<rparr>"
  note t = cancel_checked_before_each_row[where e = ?e and ctx = "\<lparr>deadline = 2\<rparr>" and w = "start\<lparr>now := 2\<rparr>"
      and k = 2 and c = blank and cs = "[]" and wr = ?wr and filename = "''customers.csv''"
      and customers = "[jane, blank]" and ?w0.0 = start and w' = "snd ?x"]
  have d: "ctx_Done \<lparr>deadline = 2\<rparr> (start\<lparr>now := 2\<rparr>)" by (simp add: ctx_Done_def)
  have step: "export_rows ?e \<lparr>deadline = 2\<rparr> 2 [blank] ?wr (start\<lparr>now := 2\<rparr>)
      = (Some Cancelled, ?wr, start\<lparr>now := 2\<rparr>)"
    using t[THEN conjunct1] d by blast
  have h: "(\<forall>k. dest_write ?e k = None) \<and> (''customers.csv'' \<noteq> [] \<longrightarrow> create_err ?e ''customers.csv'' = None)"
    by (simp add: example_env_def)
  have "\<exists>i<length [jane, blank]. deadline \<lparr>deadline = 2\<rparr> \<le> now start + (\<Sum>j<Suc i. write_cost ?e j)"
    by (intro exI[of _ 1]) (simp add: example_env_def start_def)
  then have f: "fst ?x = Some Cancelled"
    using t[THEN conjunct2, THEN conjunct1, THEN mp, OF h] by blast
  then have run: "?x = (Some Cancelled, snd ?x)" by (simp add: prod_eq_iff)
  from t[THEN conjunct2, THEN conjunct2] h run obtain n where
    n: "n < length [jane, blank]"
       "written ''customers.csv'' start (snd ?x) (csv_record header @ csv_rows (take n [jane, blank]))"
       "\<forall>i<n. \<not> deadline \<lparr>deadline = 2\<rparr> \<le> now start + (\<Sum>j<Suc i. write_cost ?e j)"
       "deadline \<lparr>deadline = 2\<rparr> \<le> now start + (\<Sum>j<Suc n. write_cost ?e j)"
    by blast
  have "1 \<le> n" using n(4) by (simp add: example_env_def start_def)
  then have "n = 1" using n(1) by simp
  then have "written ''customers.csv'' start (snd ?x) (csv_record header @ csv_record (customer_record jane))"
    using n(2) by (simp add: csv_rows_def)
  then show ?thesis using d step f by (simp add: header_line jane_line)
qed

text \<open>
  C9 (amended). When the context is already done as the export begins, and the destination
  opens and takes the header when the writer is flushed, the export writes the header line
  and nothing else: the context is polled before each customer's line only, never before
  the header. For a list that is not empty it then returns \<open>Cancelled\<close>; for the empty
  list the loop has nothing to poll for and the export succeeds.
\<close>

theorem expired_export_writes_header:
  assumes "ctx_Done ctx w"
    and "filename \<noteq> [] \<longrightarrow> create_err e filename = None"
    and "dest_write e 0 = None"
  shows "fst (exportToCSV e ctx customers filename w) = (if customers = [] then None else Some Cancelled)
       \<and> written filename w (snd (exportToCSV e ctx customers filename w)) (csv_record header)
       \<and> csv_record header = ''ID,Display Name,Email Address,Amount Spent,Currency Code'' @ [nl]"
  using export_expired[OF assms] header_line by simp

theorem expired_export_witness:
  "ctx_Done \<lparr>deadline = 0\<rparr> start
   \<and> fst (exportToCSV (example_env 10 (Inr ok_body) (Inr (response [jane] []))) \<lparr>deadline = 0\<rparr>
        [jane] ''customers.csv'' start) = Some Cancelled
   \<and> written ''customers.csv'' start
        (snd (exportToCSV (example_env 10 (Inr ok_body) (Inr (response [jane] []))) \<lparr>deadline = 0\<rparr>
           [jane] ''customers.csv'' start))
        (''ID,Display Name,Email Address,Amount Spent,Currency Code'' @ [nl])"
proof -
  let ?e = "example_env 10 (Inr ok_body) (Inr (response [jane] []))"
  have d: "ctx_Done \<lparr>deadline = 0\<rparr> start" by (simp add: ctx_Done_def)
  have c: "''customers.csv'' \<noteq> [] \<longrightarrow> create_err ?e ''customers.csv'' = None"
    by (simp add: example_env_def)
  have h: "dest_write ?e 0 = None" by (simp add: example_env_def)
  note t = expired_export_writes_header[OF d c h, of "[jane]"]
  have "fst (exportToCSV ?e \<lparr>deadline = 0\<rparr> [jane] ''customers.csv'' start) = Some Cancelled"
    using t by simp
  moreover have "written ''customers.csv'' start
        (snd (exportToCSV ?e \<lparr>deadline = 0\<rparr> [jane] ''customers.csv'' start))
        (''ID,Display Name,Email Address,Amount Spent,Currency Code'' @ [nl])"
    using t[THEN conjunct2, THEN conjunct1] unfolding header_line .
  ultimately show ?thesis using d by blast
qed

text \<open>
  C9 as stated fails for the empty list: with the context done from the start the export
  returns no error at all.
\<close>

theorem expired_export_empty_list_succeeds:
  "ctx_Done \<lparr>deadline = 0\<rparr> start
   \<and> fst (exportToCSV (example_env 10 (Inr ok_body) (Inr (response [] []))) \<lparr>deadline = 0\<rparr>
        [] ''customers.csv'' start) = None
   \<and> fst (exportToCSV (example_env 10 (Inr ok_body) (Inr (response [] []))) \<lparr>deadline = 0\<rparr>
        [] ''customers.csv'' start) \<noteq> Some Cancelled"
proof -
  let ?e = "example_env 10 (Inr ok_body) (Inr (response [] []))"
  have d: "ctx_Done \<lparr>deadline = 0\<rparr> start" by (simp add: ctx_Done_def)
  have c: "''customers.csv'' \<noteq> [] \<longrightarrow> create_err ?e ''customers.csv'' = None"
    by (simp add: example_env_def)
  have h: "dest_write ?e 0 = None" by (simp add: example_env_def)
  show ?thesis using export_expired(1)[OF d c h, of "[]"] d by simp
qed

lemma jane_record: "customer_record jane = [''gid://1'', ''Jane Doe'', [], ''100.00'', ''USD'']"
  by (simp add: jane_def customer_record_def StringFixed_def Round_def rescale_def decimal_string_def
      Let_def nat_digits.simps digit_char_def)

lemma blank_record: "customer_record blank = [''gid://2'', ''John Roe'', [], ''12.35'', ''USD'']"
  by (simp add: blank_def customer_record_def StringFixed_def Round_def rescale_def decimal_string_def
      Let_def nat_digits.simps digit_char_def)

lemma wrapped_record:
  "customer_record wrapped = [''gid://3'', ''Ann Poe'', ''ann@example.com'' @ [cr, nl], ''5.00'', ''USD'']"
  by (simp add: wrapped_def customer_record_def StringFixed_def Round_def rescale_def decimal_string_def
      Let_def nat_digits.simps digit_char_def)

lemma jane_read: "map crlf_to_lf (customer_record jane) = [''gid://1'', ''Jane Doe'', [], ''100.00'', ''USD'']"
  unfolding jane_record by (simp add: cr_def nl_def)

lemma blank_read: "map crlf_to_lf (customer_record blank) = [''gid://2'', ''John Roe'', [], ''12.35'', ''USD'']"
  unfolding blank_record by (simp add: cr_def nl_def)

lemma wrapped_read:
  "map crlf_to_lf (customer_record wrapped) = [''gid://3'', ''Ann Poe'', ''ann@example.com'' @ [nl], ''5.00'', ''USD'']"
  unfolding wrapped_record by (simp add: cr_def nl_def)

text \<open>
  C5 (amended). After an export of N customers that succeeds into a destination that
  takes every write, the destination holds the header line and the customers' lines, and
  reading this text back gives the header and N rows, the rows of the customers in input
  order. The email field of row i is the empty text when customer i has no email; when it
  has one, the field is the email's address with every carriage return before a line
  feed dropped, so it is the address itself when the address holds no carriage return.
  The field is empty exactly when the customer has no email or has an email whose address
  is the empty text.
\<close>

theorem export_roundtrip:
  assumes "\<forall>k. dest_write e k = None"
    and "exportToCSV e ctx customers filename w = (None, w')"
  shows "written filename w w' (csv_record header @ csv_rows customers)
       \<and> parse_csv (csv_record header @ csv_rows customers)
           = Some (header # map (\<lambda>c. map crlf_to_lf (customer_record c)) customers)
       \<and> length (map (\<lambda>c. map crlf_to_lf (customer_record c)) customers) = length customers
       \<and> (\<forall>i<length customers.
            (DefaultEmailAddress (Node (customers ! i)) = None \<longrightarrow>
               map (\<lambda>c. map crlf_to_lf (customer_record c)) customers ! i ! 2 = [])
          \<and> (\<forall>de. DefaultEmailAddress (Node (customers ! i)) = Some de \<longrightarrow>
               map (\<lambda>c. map crlf_to_lf (customer_record c)) customers ! i ! 2 = crlf_to_lf (EmailAddress de))
          \<and> (\<forall>de. DefaultEmailAddress (Node (customers ! i)) = Some de \<and> cr \<notin> set (EmailAddress de) \<longrightarrow>
               map (\<lambda>c. map crlf_to_lf (customer_record c)) customers ! i ! 2 = EmailAddress de)
          \<and> ((map (\<lambda>c. map crlf_to_lf (customer_record c)) customers ! i ! 2 = []) =
               (DefaultEmailAddress (Node (customers ! i)) = None \<or>
                DefaultEmailAddress (Node (customers ! i)) = Some \<lparr>EmailAddress = []\<rparr>)))"
proof -
  have f: "map crlf_to_lf (customer_record c) ! 2
      = crlf_to_lf (case DefaultEmailAddress (Node c) of None \<Rightarrow> [] | Some de \<Rightarrow> EmailAddress de)" for c
    by (simp add: customer_record_def)
  have e: "(DefaultEmailAddress (Node c) = None \<longrightarrow> map crlf_to_lf (customer_record c) ! 2 = [])
         \<and> (\<forall>de. DefaultEmailAddress (Node c) = Some de \<longrightarrow>
               map crlf_to_lf (customer_record c) ! 2 = crlf_to_lf (EmailAddress de))
         \<and> (\<forall>de. DefaultEmailAddress (Node c) = Some de \<and> cr \<notin> set (EmailAddress de) \<longrightarrow>
               map crlf_to_lf (customer_record c) ! 2 = EmailAddress de)
         \<and> ((map crlf_to_lf (customer_record c) ! 2 = []) =
              (DefaultEmailAddress (Node c) = None \<or> DefaultEmailAddress (Node c) = Some \<lparr>EmailAddress = []\<rparr>))"
    for c
    unfolding f by (cases "DefaultEmailAddress (Node c)") (auto simp: crlf_empty crlf_none)
  show ?thesis using export_success[OF assms] export_text_parses[of customers] e
    by (simp add: crlf_none)
qed

theorem export_roundtrip_witness:
  "fst (exportToCSV (example_env 10 (Inr ok_body) (Inr (response [jane, blank, wrapped] []))) \<lparr>deadline = 5000\<rparr>
          [jane, blank, wrapped] ''customers.csv'' start) = None
   \<and> files (snd (exportToCSV (example_env 10 (Inr ok_body) (Inr (response [jane, blank, wrapped] [])))
          \<lparr>deadline = 5000\<rparr> [jane, blank, wrapped] ''customers.csv'' start)) ''customers.csv''
       = Some (''ID,Display Name,Email Address,Amount Spent,Currency Code'' @ [nl] @
               ''gid://1,Jane Doe,,100.00,USD'' @ [nl] @ ''gid://2,John Roe,,12.35,USD'' @ [nl] @
               ''gid://3,Ann Poe,'' @ [dquote] @ ''ann@example.com'' @ [cr, nl, dquote] @ '',5.00,USD'' @ [nl])
   \<and> parse_csv (''ID,Display Name,Email Address,Amount Spent,Currency Code'' @ [nl] @
                ''gid://1,Jane Doe,,100.00,USD'' @ [nl] @ ''gid://2,John Roe,,12.35,USD'' @ [nl] @
                ''gid://3,Ann Poe,'' @ [dquote] @ ''ann@example.com'' @ [cr, nl, dquote] @ '',5.00,USD'' @ [nl])
       = Some [[''ID'', ''Display Name'', ''Email Address'', ''Amount Spent'', ''Currency Code''],
               [''gid://1'', ''Jane Doe'', [], ''100.00'', ''USD''],
               [''gid://2'', ''John Roe'', [], ''12.35'', ''USD''],
               [''gid://3'', ''Ann Poe'', ''ann@example.com'' @ [nl], ''5.00'', ''USD'']]"
proof -
  let ?e = "example_env 10 (Inr ok_body) (Inr (response [jane, blank, wrapped] []))"
  let ?x = "exportToCSV ?e \<lparr>deadline = 5000\<rparr> [jane, blank, wrapped] ''customers.csv'' start"
  have takes: "\<forall>k. dest_write ?e k = None" by (rule example_env_takes)
  have f: "fst ?x = None" by (rule example_export_in_time) simp
  then have run: "?x = (None, snd ?x)" by (simp add: prod_eq_iff)
  note t = export_roundtrip[OF takes run]
  have lines: "csv_record header @ csv_rows [jane, blank, wrapped] =
      ''ID,Display Name,Email Address,Amount Spent,Currency Code'' @ [nl] @
      ''gid://1,Jane Doe,,100.00,USD'' @ [nl] @ ''gid://2,John Roe,,12.35,USD'' @ [nl] @
      ''gid://3,Ann Poe,'' @ [dquote] @ ''ann@example.com'' @ [cr, nl, dquote] @ '',5.00,USD'' @ [nl]"
    by (simp add: csv_rows_def header_line jane_line blank_line wrapped_line)
  have w: "written ''customers.csv'' start (snd ?x) (csv_record header @ csv_rows [jane, blank, wrapped])"
    using t by blast
  have content: "files (snd ?x) ''customers.csv'' = Some (csv_record header @ csv_rows [jane, blank, wrapped])"
    using w by (simp add: written_def)
  have p: "parse_csv (csv_record header @ csv_rows [jane, blank, wrapped])
      = Some (header # map (\<lambda>c. map crlf_to_lf (customer_record c)) [jane, blank, wrapped])"
    using t by blast
  have rows: "header # map (\<lambda>c. map crlf_to_lf (customer_record c)) [jane, blank, wrapped]
      = [[''ID'', ''Display Name'', ''Email Address'', ''Amount Spent'', ''Currency Code''],
               [''gid://1'', ''Jane Doe'', [], ''100.00'', ''USD''],
               [''gid://2'', ''John Roe'', [], ''12.35'', ''USD''],
               [''gid://3'', ''Ann Poe'', ''ann@example.com'' @ [nl], ''5.00'', ''USD'']]"
    by (simp add: header_def jane_read blank_read wrapped_read)
  show ?thesis using f content[unfolded lines] p[unfolded lines rows] by blast
qed

text \<open>
  C5 as stated fails for a customer whose email is present with an empty address: the
  export succeeds, the row read back has an empty email field, and the customer has an
  email.
\<close>

theorem empty_email_counterexample:
  "fst (exportToCSV (example_env 10 (Inr ok_body) (Inr (response [blank] []))) \<lparr>deadline = 5000\<rparr>
          [blank] ''customers.csv'' start) = None
   \<and> files (snd (exportToCSV (example_env 10 (Inr ok_body) (Inr (response [blank] []))) \<lparr>deadline = 5000\<rparr>
          [blank] ''customers.csv'' start)) ''customers.csv''
       = Some (''ID,Display Name,Email Address,Amount Spent,Currency Code'' @ [nl] @
               ''gid://2,John Roe,,12.35,USD'' @ [nl])
   \<and> parse_csv (''ID,Display Name,Email Address,Amount Spent,Currency Code'' @ [nl] @
                ''gid://2,John Roe,,12.35,USD'' @ [nl])
       = Some [[''ID'', ''Display Name'', ''Email Address'', ''Amount Spent'', ''Currency Code''],
               [''gid://2'', ''John Roe'', [], ''12.35'', ''USD'']]
   \<and> DefaultEmailAddress (Node blank) = Some \<lparr>EmailAddress = []\<rparr>
   \<and> DefaultEmailAddress (Node blank) \<noteq> None"
proof -
  let ?e = "example_env 10 (Inr ok_body) (Inr (response [blank] []))"
  let ?x = "exportToCSV ?e \<lparr>deadline = 5000\<rparr> [blank] ''customers.csv'' start"
  have takes: "\<forall>k. dest_write ?e k = None" by (rule example_env_takes)
  have f: "fst ?x = None" by (rule example_export_in_time) simp
  then have run: "?x = (None, snd ?x)" by (simp add: prod_eq_iff)
  have lines: "csv_record header @ csv_rows [blank] =
      ''ID,Display Name,Email Address,Amount Spent,Currency Code'' @ [nl] @ ''gid://2,John Roe,,12.35,USD'' @ [nl]"
    by (simp add: csv_rows_def header_line blank_line)
  have w: "written ''customers.csv'' start (snd ?x) (csv_record header @ csv_rows [blank])"
    using export_success[OF takes run] .
  then have content: "files (snd ?x) ''customers.csv'' =
      Some (''ID,Display Name,Email Address,Amount Spent,Currency Code'' @ [nl] @ ''gid://2,John Roe,,12.35,USD'' @ [nl])"
    unfolding lines by (simp add: written_def)
  have p: "parse_csv (''ID,Display Name,Email Address,Amount Spent,Currency Code'' @ [nl] @ ''gid://2,John Roe,,12.35,USD'' @ [nl])
      = Some [[''ID'', ''Display Name'', ''Email Address'', ''Amount Spent'', ''Currency Code''],
               [''gid://2'', ''John Roe'', [], ''12.35'', ''USD'']]"
    using export_text_parses[of "[blank]"] unfolding lines by (simp add: blank_read header_def)
  have em: "DefaultEmailAddress (Node blank) = Some \<lparr>EmailAddress = []\<rparr>" by (simp add: blank_def)
  show ?thesis using f content p em by simp
qed

text \<open>
  C4. The amount column of every customer's row is the amount rounded half up to
  hundredths (a tie goes to the neighbour of larger magnitude) and written with exactly
  two decimal digits. So 12.345 is written \<open>12.35\<close>, and every amount of \<open>n\<close>
  hundredths and a half is written as \<open>n + 1\<close> hundredths, with its sign.
\<close>

theorem amount_two_decimals_half_up:
  "customer_record c ! 3 = fmt_cents (half_up_cents (decimal_value (Amount (AmountSpent (Node c)))))
   \<and> two_decimals (customer_record c ! 3)
   \<and> StringFixed \<lparr>dvalue = 12345, dexp = - 3\<rparr> 2 = ''12.35''
   \<and> (0 \<le> n \<longrightarrow> StringFixed \<lparr>dvalue = 10 * n + 5, dexp = - 3\<rparr> 2 = fmt_cents (n + 1))
   \<and> (0 \<le> n \<longrightarrow> StringFixed \<lparr>dvalue = - (10 * n + 5), dexp = - 3\<rparr> 2 = fmt_cents (- (n + 1)))"
proof -
  have a: "customer_record c ! 3 = fmt_cents (half_up_cents (decimal_value (Amount (AmountSpent (Node c)))))"
    by (simp add: customer_record_def StringFixed_half_up)
  have b: "two_decimals (customer_record c ! 3)" unfolding a by (rule fmt_cents_two_decimals)
  have c: "StringFixed \<lparr>dvalue = 12345, dexp = - 3\<rparr> 2 = ''12.35''"
    by (simp add: StringFixed_def Round_def rescale_def decimal_string_def Let_def nat_digits.simps digit_char_def)
  have m: "mag (10 * n + 5) (- 3) = n + 1" if "0 \<le> n"
  proof -
    have "(10 * n + 5 + 5) div 10 = (n + 1) * 10 div 10" by (simp add: algebra_simps)
    then show ?thesis by (simp add: mag_def)
  qed
  have m': "mag (5 + 10 * n) (- 3) = n + 1" if "0 \<le> n"
    using m[OF that] by (simp add: add.commute)
  have d: "StringFixed \<lparr>dvalue = 10 * n + 5, dexp = - 3\<rparr> 2 = fmt_cents (n + 1)" if "0 \<le> n"
    using that m m' by (simp add: StringFixed_half_up half_up_value)
  have e: "StringFixed \<lparr>dvalue = - (10 * n + 5), dexp = - 3\<rparr> 2 = fmt_cents (- (n + 1))" if "0 \<le> n"
    using that m m' by (simp add: StringFixed_half_up half_up_value)
  show ?thesis using a b c d e by blast
qed

theorem amount_two_decimals_witness:
  "customer_record blank ! 3 = ''12.35'' \<and> customer_record jane ! 3 = ''100.00''
   \<and> StringFixed \<lparr>dvalue = 10 * 7 + 5, dexp = - 3\<rparr> 2 = ''0.08''
   \<and> StringFixed \<lparr>dvalue = - (10 * 7 + 5), dexp = - 3\<rparr> 2 = ''-0.08''"
proof -
  have v1: "half_up_cents (decimal_value \<lparr>dvalue = 12345, dexp = - 3\<rparr>) = 1235"
    by (simp add: half_up_value mag_def)
  have v2: "half_up_cents (decimal_value \<lparr>dvalue = 100, dexp = 0\<rparr>) = 10000"
    by (simp add: half_up_value mag_def)
  have f1: "fmt_cents 1235 = ''12.35''" by (simp add: fmt_cents_def nat_digits.simps digit_char_def)
  have f2: "fmt_cents 10000 = ''100.00''" by (simp add: fmt_cents_def nat_digits.simps digit_char_def)
  have f3: "fmt_cents 8 = ''0.08''" by (simp add: fmt_cents_def nat_digits.simps digit_char_def)
  have f4: "fmt_cents (- 8) = ''-0.08''" by (simp add: fmt_cents_def nat_digits.simps digit_char_def)
  have "customer_record blank ! 3 = ''12.35''"
    using amount_two_decimals_half_up[of blank 7, THEN conjunct1] by (simp add: blank_def v1 f1)
  moreover have "customer_record jane ! 3 = ''100.00''"
    using amount_two_decimals_half_up[of jane 7, THEN conjunct1] by (simp add: jane_def v2 f2)
  moreover have "StringFixed \<lparr>dvalue = 10 * 7 + 5, dexp = - 3\<rparr> 2 = ''0.08''"
    using amount_two_decimals_half_up[of jane 7] f3 by simp
  moreover have "StringFixed \<lparr>dvalue = - (10 * 7 + 5), dexp = - 3\<rparr> 2 = ''-0.08''"
    using amount_two_decimals_half_up[of jane 7] f4 by simp
  ultimately show ?thesis by blast
qed

end
